theory Spec2Isabelle
  imports
    Main
    "HOL-Library.Char_ord"
    "HOL-Library.List_Lexorder"
    "HOL-Library.Product_Lexorder"
    "HOL-Library.Sublist"
begin

section \<open>Attendance upload: the ingestion pipeline of \<open>attendance/views.py\<close>\<close>

text \<open>
  The development embeds \<open>upload_attendance\<close> (views.py, lines 268-414) from the point
  where the uploaded file has been read into a data frame, together with
  \<open>Attendance.save\<close> (models.py, lines 38-44) and the unique constraint of
  \<open>Attendance.Meta\<close>. Strings are lists of \<open>char\<close>, read as code points below 256.
\<close>

subsection \<open>Python string operations\<close>

text \<open>\<open>str.isspace\<close> on one character, for code points below 256.\<close>

definition py_isspace :: "char \<Rightarrow> bool" where
  "py_isspace c \<longleftrightarrow>
     (of_char c :: nat) \<in> set [9, 10, 11, 12, 13, 28, 29, 30, 31, 32, 133, 160]"

text \<open>\<open>s.strip()\<close>: whitespace removed at both ends.\<close>

definition str_strip :: "string \<Rightarrow> string" where
  "str_strip s = rev (dropWhile py_isspace (rev (dropWhile py_isspace s)))"

text \<open>\<open>s.lower()\<close>: A-Z and the upper-case letters of Latin-1 move up by 32.\<close>

definition char_lower :: "char \<Rightarrow> char" where
  "char_lower c =
     (let n = (of_char c :: nat)
      in if (65 \<le> n \<and> n \<le> 90) \<or> (192 \<le> n \<and> n \<le> 222 \<and> n \<noteq> 215)
         then char_of (n + 32) else c)"

definition str_lower :: "string \<Rightarrow> string" where
  "str_lower s = map char_lower s"

text \<open>
  The substring test \<open>sub in s\<close> of Python is \<^term>\<open>sublist sub s\<close>;
  the generator idiom \<open>next((c for c in xs if p(c)), None)\<close> is \<^term>\<open>find p xs\<close>.
\<close>

subsection \<open>Column resolution (views.py, lines 286-306)\<close>

text \<open>\<open>df.columns = [str(c).strip().lower() for c in df.columns]\<close>\<close>

definition normalize_columns :: "string list \<Rightarrow> string list" where
  "normalize_columns cols = map (\<lambda>c. str_lower (str_strip c)) cols"

definition col_date :: "string list \<Rightarrow> string option" where
  "col_date cols =
     (if ''date'' \<in> set cols then Some ''date''
      else find (\<lambda>c. sublist ''date'' c \<and> \<not> sublist ''month'' c \<and> \<not> sublist ''report'' c) cols)"

definition in_time_candidates :: "string list" where
  "in_time_candidates =
     [''in time'', ''in_time'', ''intime'', ''check in time'', ''check-in'', ''check_in'']"

definition col_time :: "string list \<Rightarrow> string option" where
  "col_time cols =
     (case find (\<lambda>c. c \<in> set cols) in_time_candidates of
        Some c \<Rightarrow> Some c
      | None \<Rightarrow>
          if ''time'' \<in> set cols then Some ''time''
          else find (\<lambda>c. sublist ''time'' c \<and> \<not> sublist ''out'' c \<and> \<not> sublist ''logout'' c) cols)"

definition col_email :: "string list \<Rightarrow> string option" where
  "col_email cols = find (\<lambda>c. sublist ''email'' c) cols"

text \<open>
  \<open>missing = [label for label, col in {"Date": .., "Time": .., "Email": ..}.items()
  if col is None]\<close>, in the insertion order of the dictionary.
\<close>

definition missing :: "string list \<Rightarrow> string list" where
  "missing cols =
     (if col_date cols = None then [''Date''] else []) @
     (if col_time cols = None then [''Time''] else []) @
     (if col_email cols = None then [''Email''] else [])"

text \<open>
  The wording of the specification, for comparison with the code: \<open>first_header p cols\<close>
  is the header at the least position whose header satisfies \<open>p\<close>, if there is one.
\<close>

definition first_header :: "(string \<Rightarrow> bool) \<Rightarrow> string list \<Rightarrow> string option \<Rightarrow> bool" where
  "first_header p cols r \<longleftrightarrow>
     (case r of
        None \<Rightarrow> list_all (\<lambda>c. \<not> p c) cols
      | Some c \<Rightarrow> list_ex (\<lambda>i. cols ! i = c \<and> p c \<and> list_all (\<lambda>j. \<not> p (cols ! j)) [0..<i])
                  [0..<length cols])"

definition spec_identity_column :: "string list \<Rightarrow> string option \<Rightarrow> bool" where
  "spec_identity_column cols r \<longleftrightarrow> first_header (\<lambda>c. sublist ''email'' c) cols r"

definition spec_date_column :: "string list \<Rightarrow> string option \<Rightarrow> bool" where
  "spec_date_column cols r \<longleftrightarrow>
     (if ''date'' \<in> set cols then r = Some ''date''
      else first_header
             (\<lambda>c. sublist ''date'' c \<and> \<not> (sublist ''month'' c \<or> sublist ''report'' c)) cols r)"

definition spec_time_column :: "string list \<Rightarrow> string option \<Rightarrow> bool" where
  "spec_time_column cols r \<longleftrightarrow>
     (if list_ex (\<lambda>c. c \<in> set cols)
           [''in time'', ''in_time'', ''intime'', ''check in time'', ''check-in'', ''check_in'']
      then first_header (\<lambda>c. c \<in> set cols)
             [''in time'', ''in_time'', ''intime'', ''check in time'', ''check-in'', ''check_in''] r
      else if ''time'' \<in> set cols then r = Some ''time''
      else first_header
             (\<lambda>c. sublist ''time'' c \<and> \<not> (sublist ''out'' c \<or> sublist ''logout'' c)) cols r)"

subsection \<open>Dates, times of day and timestamps\<close>

text \<open>
  A \<open>datetime.date\<close> is (year, month, day), a \<open>datetime.time\<close> is (hour, minute, second,
  microsecond); both are compared field by field from the left, as Python compares them.
  A pandas \<open>Timestamp\<close> is a 64-bit count of nanoseconds since 1970-01-01 00:00; the
  least 64-bit value is \<open>NaT\<close>, so a timestamp lies strictly inside the 64-bit range.
  \<open>NaT\<close> and \<open>NaN\<close> are \<^term>\<open>None\<close>.
\<close>

type_synonym cal_date = "int \<times> int \<times> int"
type_synonym time_of_day = "int \<times> int \<times> int \<times> int"
type_synonym timestamp = int

definition ns_per_day :: int where
  "ns_per_day = 86400000000000"

definition in_bounds :: "int \<Rightarrow> bool" where
  "in_bounds v \<longleftrightarrow> - (2 ^ 63) < v \<and> v < 2 ^ 63"

definition is_leap :: "int \<Rightarrow> bool" where
  "is_leap y \<longleftrightarrow> y mod 4 = 0 \<and> (y mod 100 \<noteq> 0 \<or> y mod 400 = 0)"

definition days_in_month :: "int \<Rightarrow> int \<Rightarrow> int" where
  "days_in_month y m =
     (if m = 2 then (if is_leap y then 29 else 28)
      else if m = 4 \<or> m = 6 \<or> m = 9 \<or> m = 11 then 30 else 31)"

text \<open>What \<open>datetime.date(y, m, d)\<close> accepts.\<close>

definition valid_date :: "cal_date \<Rightarrow> bool" where
  "valid_date ymd =
     (case ymd of (y, m, d) \<Rightarrow>
        1 \<le> y \<and> y \<le> 9999 \<and> 1 \<le> m \<and> m \<le> 12 \<and> 1 \<le> d \<and> d \<le> days_in_month y m)"

text \<open>Days between 1970-01-01 and a date of the proleptic Gregorian calendar, and back.\<close>

definition days_from_civil :: "cal_date \<Rightarrow> int" where
  "days_from_civil ymd =
     (case ymd of (y, m, d) \<Rightarrow>
        let y' = (if m \<le> 2 then y - 1 else y);
            era = y' div 400;
            yoe = y' - era * 400;
            doy = (153 * (if 2 < m then m - 3 else m + 9) + 2) div 5 + d - 1;
            doe = yoe * 365 + yoe div 4 - yoe div 100 + doy
        in era * 146097 + doe - 719468)"

definition civil_from_days :: "int \<Rightarrow> cal_date" where
  "civil_from_days z0 =
     (let z = z0 + 719468;
          era = z div 146097;
          doe = z - era * 146097;
          yoe = (doe - doe div 1460 + doe div 36524 - doe div 146096) div 365;
          doy = doe - (365 * yoe + yoe div 4 - yoe div 100);
          mp = (5 * doy + 2) div 153;
          d = doy - (153 * mp + 2) div 5 + 1;
          m = (if mp < 10 then mp + 3 else mp - 9)
      in (if m \<le> 2 then yoe + era * 400 + 1 else yoe + era * 400, m, d))"

text \<open>The accessors \<open>.dt.date\<close> and \<open>.dt.time\<close> (the latter drops what is below a microsecond).\<close>

definition dt_date :: "timestamp \<Rightarrow> cal_date" where
  "dt_date v = civil_from_days (v div ns_per_day)"

definition dt_time :: "timestamp \<Rightarrow> time_of_day" where
  "dt_time v =
     (let r = v mod ns_per_day
      in (r div 3600000000000, (r div 60000000000) mod 60, (r div 1000000000) mod 60,
          (r div 1000) mod 1000000))"

subsection \<open>The pandas parsers the view calls\<close>

text \<open>
  Modelled from the spec: \<open>pandas.to_datetime(.., format=F, errors="coerce")\<close> is library
  code, not part of the repository. The specification names the fixed formats
  day/month/year hour:minute:second, month/day/year hour:minute:second, hour:minute:second
  and hour:minute; the format strings are the ones of views.py (lines 331-343). A cell
  matches when the whole string fits the format: \<open>%d\<close>, \<open>%m\<close>, \<open>%H\<close>, \<open>%M\<close>, \<open>%S\<close> read one
  or two digits within their ranges (a two-digit reading first), \<open>%Y\<close> reads four digits,
  a blank of the format reads one or more blanks, any other character reads itself. A
  format without a date stands for 1900-01-01. A cell that does not match, names no
  calendar date or leaves the range of a timestamp is \<open>NaT\<close>.
\<close>

definition is_digit :: "char \<Rightarrow> bool" where
  "is_digit c \<longleftrightarrow> 48 \<le> (of_char c :: nat) \<and> (of_char c :: nat) \<le> 57"

definition digit_val :: "char \<Rightarrow> int" where
  "digit_val c = int (of_char c) - 48"

definition two :: "(char \<Rightarrow> bool) \<Rightarrow> (char \<Rightarrow> bool) \<Rightarrow> string \<Rightarrow> (int \<times> string) option" where
  "two p q s =
     (case s of
        a # b # r \<Rightarrow> if p a \<and> q b then Some (10 * digit_val a + digit_val b, r) else None
      | _ \<Rightarrow> None)"

definition one :: "(char \<Rightarrow> bool) \<Rightarrow> string \<Rightarrow> (int \<times> string) option" where
  "one p s = (case s of a # r \<Rightarrow> if p a then Some (digit_val a, r) else None | [] \<Rightarrow> None)"

fun alt :: "(string \<Rightarrow> (int \<times> string) option) list \<Rightarrow> string \<Rightarrow> (int \<times> string) option" where
  "alt [] s = None"
| "alt (f # fs) s = (case f s of Some v \<Rightarrow> Some v | None \<Rightarrow> alt fs s)"

definition among :: "string \<Rightarrow> char \<Rightarrow> bool" where
  "among cs c \<longleftrightarrow> c \<in> set cs"

definition directive :: "char \<Rightarrow> string \<Rightarrow> (int \<times> string) option" where
  "directive d s =
     (if d = CHR ''d'' then
        alt [two (among ''3'') (among ''01''), two (among ''12'') is_digit,
             two (among ''0'') (among ''123456789''), one (among ''123456789''),
             (\<lambda>s. case s of a # r \<Rightarrow> if a = CHR '' '' then one (among ''123456789'') r else None
                            | [] \<Rightarrow> None)] s
      else if d = CHR ''m'' then
        alt [two (among ''1'') (among ''012''), two (among ''0'') (among ''123456789''),
             one (among ''123456789'')] s
      else if d = CHR ''Y'' then
        (case s of
           a # b # c # e # r \<Rightarrow>
             if is_digit a \<and> is_digit b \<and> is_digit c \<and> is_digit e
             then Some (1000 * digit_val a + 100 * digit_val b + 10 * digit_val c + digit_val e, r)
             else None
         | _ \<Rightarrow> None)
      else if d = CHR ''H'' then
        alt [two (among ''2'') (among ''0123''), two (among ''01'') is_digit, one is_digit] s
      else if d = CHR ''M'' then
        alt [two (among ''012345'') is_digit, one is_digit] s
      else if d = CHR ''S'' then
        alt [two (among ''6'') (among ''01''), two (among ''012345'') is_digit, one is_digit] s
      else None)"

record fields =
  f_year :: int
  f_month :: int
  f_day :: int
  f_hour :: int
  f_minute :: int
  f_second :: int

definition set_field :: "char \<Rightarrow> int \<Rightarrow> fields \<Rightarrow> fields" where
  "set_field d v f =
     (if d = CHR ''d'' then f\<lparr>f_day := v\<rparr>
      else if d = CHR ''m'' then f\<lparr>f_month := v\<rparr>
      else if d = CHR ''Y'' then f\<lparr>f_year := v\<rparr>
      else if d = CHR ''H'' then f\<lparr>f_hour := v\<rparr>
      else if d = CHR ''M'' then f\<lparr>f_minute := v\<rparr>
      else f\<lparr>f_second := v\<rparr>)"

fun match_format :: "string \<Rightarrow> string \<Rightarrow> fields \<Rightarrow> fields option" where
  "match_format [] s f = (if s = [] then Some f else None)"
| "match_format (c # cs) s f =
     (if c = CHR ''%'' then
        (case cs of
           [] \<Rightarrow> None
         | d # ds \<Rightarrow>
             (case directive d s of
                None \<Rightarrow> None
              | Some (v, r) \<Rightarrow> match_format ds r (set_field d v f)))
      else if py_isspace c then
        (case s of
           [] \<Rightarrow> None
         | x # xs \<Rightarrow> if py_isspace x then match_format cs (dropWhile py_isspace xs) f else None)
      else
        (case s of [] \<Rightarrow> None | x # xs \<Rightarrow> if x = c then match_format cs xs f else None))"

definition strptime :: "string \<Rightarrow> string \<Rightarrow> timestamp option" where
  "strptime fmt s =
     (case match_format fmt s
             \<lparr>f_year = 1900, f_month = 1, f_day = 1, f_hour = 0, f_minute = 0, f_second = 0\<rparr> of
        None \<Rightarrow> None
      | Some f \<Rightarrow>
          if valid_date (f_year f, f_month f, f_day f) then
            (let v = (days_from_civil (f_year f, f_month f, f_day f) * 86400
                      + f_hour f * 3600 + f_minute f * 60 + f_second f) * 1000000000
             in if in_bounds v then Some v else None)
          else None)"

text \<open>
  Modelled from the spec: \<open>pandas.to_numeric(.., errors="coerce")\<close> and
  \<open>pandas.to_datetime(.., unit="d", origin="1899-12-30", errors="coerce")\<close> are library
  code, not part of the repository. The specification reads a numeric cell as a
  spreadsheet serial: days since the epoch 1899-12-30, the fraction of a day being the time
  of day. A number is read from a decimal numeral (sign, digits, point, digits, exponent)
  and kept exactly, as mantissa and power of ten; the binary rounding of a float is not
  modelled (the two agree where the numeral is a float, as 45000.5 is). The words
  \<open>nan\<close> and \<open>inf\<close> give no timestamp either way. 1899-12-30 is day -25569.
\<close>

definition digits_val :: "string \<Rightarrow> int" where
  "digits_val ds = foldl (\<lambda>n c. 10 * n + digit_val c) 0 ds"

definition exponent :: "string \<Rightarrow> int option" where
  "exponent s =
     (case s of
        [] \<Rightarrow> Some 0
      | c # r \<Rightarrow>
          if c = CHR ''e'' \<or> c = CHR ''E'' then
            (let neg = (case r of a # _ \<Rightarrow> a = CHR ''-'' | [] \<Rightarrow> False);
                 ds = (case r of a # r' \<Rightarrow> if a = CHR ''-'' \<or> a = CHR ''+'' then r' else r
                               | [] \<Rightarrow> r)
             in if ds \<noteq> [] \<and> list_all is_digit ds
                then Some (if neg then - digits_val ds else digits_val ds) else None)
          else None)"

definition to_numeric :: "string \<Rightarrow> (int \<times> int) option" where
  "to_numeric s =
     (let neg = (case s of a # _ \<Rightarrow> a = CHR ''-'' | [] \<Rightarrow> False);
          s1 = (case s of a # r \<Rightarrow> if a = CHR ''-'' \<or> a = CHR ''+'' then r else s | [] \<Rightarrow> s);
          ip = takeWhile is_digit s1;
          s2 = dropWhile is_digit s1;
          pt = (case s2 of a # _ \<Rightarrow> a = CHR ''.'' | [] \<Rightarrow> False);
          fp = (if pt then takeWhile is_digit (tl s2) else []);
          s3 = (if pt then dropWhile is_digit (tl s2) else s2)
      in if ip = [] \<and> fp = [] then None
         else (case exponent s3 of
                 None \<Rightarrow> None
               | Some e \<Rightarrow>
                   Some ((if neg then - digits_val (ip @ fp) else digits_val (ip @ fp)),
                         e - int (length fp))))"

definition from_serial :: "int \<times> int \<Rightarrow> timestamp option" where
  "from_serial x =
     (case x of (m, e) \<Rightarrow>
        let v = (if 0 \<le> e then (m * 10 ^ nat e - 25569) * ns_per_day
                 else ((m - 25569 * 10 ^ nat (- e)) * ns_per_day) div 10 ^ nat (- e))
        in if in_bounds v then Some v else None)"

text \<open>
  A cell of the uploaded table: a string, a number (held as the text \<open>str\<close> gives for
  it) or an empty cell (\<open>NaN\<close>). \<open>astype(str)\<close> turns an empty cell into the text "nan".
\<close>

datatype cell = Text string | Number string | Missing

definition astype_str :: "cell \<Rightarrow> string" where
  "astype_str c = (case c of Text s \<Rightarrow> s | Number r \<Rightarrow> r | Missing \<Rightarrow> ''nan'')"

text \<open>
  \<open>pandas.to_datetime(.., errors="coerce", dayfirst=.., infer_datetime_format=..)\<close>
  without a format is library code as well, and its reading of free text is not fixed by
  the repository. The view takes it as a parameter: given the keyword arguments and a
  column, the call either raises (\<^term>\<open>Inl\<close>, with the message) or returns, for every
  cell of the column, a timestamp or \<open>NaT\<close>. What it returns for a cell may depend on the
  other cells of the column (pandas may settle on one format for a column).
\<close>

record kwargs =
  dayfirst :: bool
  infer_datetime_format :: bool

type_synonym to_datetime_fn = "kwargs \<Rightarrow> cell list \<Rightarrow> string + (cell \<Rightarrow> timestamp option)"

subsection \<open>The data frame\<close>

record dataframe =
  columns :: "string list"
  rows :: "cell list list"

fun index_of :: "'a list \<Rightarrow> 'a \<Rightarrow> nat" where
  "index_of [] x = 0"
| "index_of (y # ys) x = (if y = x then 0 else Suc (index_of ys x))"

text \<open>
  \<open>df[c]\<close> is a series only when the label \<open>c\<close> names one column; with a repeated label it
  is a frame (\<^term>\<open>None\<close> here), on which the view's next call fails. A row shorter than
  the header has empty cells at its end.
\<close>

definition series :: "dataframe \<Rightarrow> string \<Rightarrow> cell list option" where
  "series df c =
     (if count_list (columns df) c = 1
      then Some (map (\<lambda>r. if index_of (columns df) c < length r
                           then r ! index_of (columns df) c else Missing) (rows df))
      else None)"

subsection \<open>Field normalisation (views.py, lines 308-357)\<close>

text \<open>\<open>pd.to_datetime(df[col_date], errors="coerce", dayfirst=True).dt.date\<close>\<close>

definition parse_date :: "to_datetime_fn \<Rightarrow> cell list \<Rightarrow> string + cal_date option list" where
  "parse_date to_datetime col =
     (case to_datetime \<lparr>dayfirst = True, infer_datetime_format = False\<rparr> col of
        Inl e \<Rightarrow> Inl e
      | Inr f \<Rightarrow> Inr (map (\<lambda>c. map_option dt_date (f c)) col))"

text \<open>\<open>df[col_email].astype(str).str.strip().str.lower()\<close>\<close>

definition parse_email :: "cell list \<Rightarrow> string list" where
  "parse_email col = map (\<lambda>c. str_lower (str_strip (astype_str c))) col"

text \<open>
  \<open>s.astype(str).str.replace(nbsp, " ", regex=False).str.strip()\<close>, where \<open>nbsp\<close> is
  the no-break space, code point 160.
\<close>

definition replace_nbsp :: "string \<Rightarrow> string" where
  "replace_nbsp s = map (\<lambda>c. if c = char_of (160 :: nat) then CHR '' '' else c) s"

definition to_s_str :: "cell list \<Rightarrow> string list" where
  "to_s_str col = map (\<lambda>c. str_strip (replace_nbsp (astype_str c))) col"

text \<open>\<open>mask_na.any()\<close>, and \<open>time_dt.loc[mask_na] = parse(s_str[mask_na])\<close> for a parser
  that works cell by cell.\<close>

definition any_na :: "'a option list \<Rightarrow> bool" where
  "any_na xs \<longleftrightarrow> list_ex (\<lambda>x. x = None) xs"

definition loc_fill ::
  "timestamp option list \<Rightarrow> string list \<Rightarrow> (string \<Rightarrow> timestamp option) \<Rightarrow> timestamp option list"
where
  "loc_fill time_dt s_str parse =
     map (\<lambda>(t, s). case t of None \<Rightarrow> parse s | Some v \<Rightarrow> Some v) (zip time_dt s_str)"

text \<open>Lines 346-354: the cells still \<open>NaT\<close> whose text is a number are read as serials.\<close>

definition excel_serial :: "string \<Rightarrow> timestamp option" where
  "excel_serial s = (case to_numeric s of None \<Rightarrow> None | Some x \<Rightarrow> from_serial x)"

definition parse_time :: "to_datetime_fn \<Rightarrow> cell list \<Rightarrow> string + time_of_day option list" where
  "parse_time to_datetime col =
     (let s_str = to_s_str col
      in case to_datetime \<lparr>dayfirst = True, infer_datetime_format = True\<rparr> (map Text s_str) of
           Inl e \<Rightarrow> Inl e
         | Inr f \<Rightarrow>
             let t0 = map (\<lambda>s. f (Text s)) s_str;
                 t1 = (if any_na t0 then loc_fill t0 s_str (strptime ''%d/%m/%Y %H:%M:%S'') else t0);
                 t2 = (if any_na t1 then loc_fill t1 s_str (strptime ''%m/%d/%Y %H:%M:%S'') else t1);
                 t3 = (if any_na t2
                       then loc_fill (loc_fill t2 s_str (strptime ''%H:%M:%S'')) s_str
                              (strptime ''%H:%M'')
                       else t2);
                 t4 = (if any_na t3 then loc_fill t3 s_str excel_serial else t3)
             in Inr (map (map_option dt_time) t4))"

subsection \<open>Diagnostics and aggregation (views.py, lines 359-379)\<close>

text \<open>A row of the frame after normalisation: \<open>__email\<close>, \<open>__date\<close>, \<open>__time\<close>.\<close>

type_synonym parsed_row = "string \<times> cal_date option \<times> time_of_day option"
type_synonym clean_row = "string \<times> cal_date \<times> time_of_day"

text \<open>
  \<open>df.dropna(subset=["__date", "__email"]).loc[:, ["__email", "__date"]]
  .drop_duplicates().shape[0]\<close>; \<open>__email\<close> is text and never \<open>NaN\<close>. Only the number of
  distinct pairs is used.
\<close>

definition count_pairs_any_time :: "parsed_row list \<Rightarrow> nat" where
  "count_pairs_any_time ps =
     length (remdups (List.map_filter
       (\<lambda>(e, d, t). case d of None \<Rightarrow> None | Some d' \<Rightarrow> Some (e, d')) ps))"

text \<open>\<open>df["__time"].isna().sum()\<close>\<close>

definition count_null_time :: "parsed_row list \<Rightarrow> nat" where
  "count_null_time ps = length (filter (\<lambda>(e, d, t). t = None) ps)"

text \<open>\<open>df.dropna(subset=["__date", "__time", "__email"])\<close>\<close>

definition df_clean :: "parsed_row list \<Rightarrow> clean_row list" where
  "df_clean ps =
     List.map_filter
       (\<lambda>(e, d, t). case d of None \<Rightarrow> None
                    | Some d' \<Rightarrow> (case t of None \<Rightarrow> None | Some t' \<Rightarrow> Some (e, d', t'))) ps"

text \<open>
  \<open>sort_values(["__email", "__date", "__time"])\<close>, then
  \<open>groupby(["__email", "__date"], as_index=False).agg({"__time": "min"})\<close>: one row for
  every key, the keys in ascending order, with the least time of the key's rows.
\<close>

definition sort_values :: "clean_row list \<Rightarrow> clean_row list" where
  "sort_values rs = sort rs"

definition group_key :: "clean_row \<Rightarrow> string \<times> cal_date" where
  "group_key r = (case r of (e, d, t) \<Rightarrow> (e, d))"

definition groupby_min :: "clean_row list \<Rightarrow> clean_row list" where
  "groupby_min rs =
     map (\<lambda>k. (fst k, snd k, min_list (map (\<lambda>r. snd (snd r)) (filter (\<lambda>r. group_key r = k) rs))))
       (sort (remdups (map group_key rs)))"

definition earliest :: "clean_row list \<Rightarrow> clean_row list" where
  "earliest rs = groupby_min (sort_values rs)"

subsection \<open>Accounts and attendance records (models.py, lines 5-44)\<close>

text \<open>
  An account of the \<open>User\<close> table, and a row of the \<open>Attendance\<close> table. The status
  codes \<open>'P'\<close> and \<open>'A'\<close> are \<open>Present\<close> and \<open>Absent\<close>. The foreign key \<open>employee\<close> holds
  the account it refers to. A table is the list of its rows, in the order of their
  primary keys.
\<close>

record user =
  user_pk :: nat
  user_email :: string

datatype status_choice = Present | Absent

record attendance =
  employee :: "user option"
  employee_email :: "string option"
  date :: cal_date
  check_in_time :: "time_of_day option"
  status :: status_choice

text \<open>
  \<open>Attendance.save\<close>. A \<open>datetime.time\<close> is always true in a condition, so
  \<open>'P' if self.check_in_time else 'A'\<close> tests for \<open>None\<close>; \<open>not self.employee_email\<close>
  holds for \<open>None\<close> and for the empty string. The result is the row as it is stored.
\<close>

definition save :: "attendance \<Rightarrow> attendance" where
  "save r =
     (let r1 = r\<lparr>status := (if check_in_time r \<noteq> None then Present else Absent)\<rparr>
      in if employee_email r1 = None \<or> employee_email r1 = Some [] then
           (case employee r1 of
              None \<Rightarrow> r1
            | Some u \<Rightarrow>
                if user_email u \<noteq> []
                then r1\<lparr>employee_email := Some (str_lower (str_strip (user_email u)))\<rparr>
                else r1)
         else r1)"

text \<open>
  \<open>User.objects.filter(email__iexact=eml).first()\<close>: the first account, by primary
  key, whose email equals \<open>eml\<close> up to case. On SQLite, the database of a Django project
  that configures no other, \<open>iexact\<close> is a \<open>LIKE\<close> comparison, which folds the case of
  the letters A-Z only.
\<close>

definition ascii_lower :: "char \<Rightarrow> char" where
  "ascii_lower c =
     (let n = (of_char c :: nat) in if 65 \<le> n \<and> n \<le> 90 then char_of (n + 32) else c)"

definition iexact :: "string \<Rightarrow> string \<Rightarrow> bool" where
  "iexact a b \<longleftrightarrow> map ascii_lower a = map ascii_lower b"

definition find_user :: "user list \<Rightarrow> string \<Rightarrow> user option" where
  "find_user users eml = find (\<lambda>u. iexact (user_email u) eml) users"

text \<open>
  The constraint \<open>uniq_attendance_email_date\<close> of \<open>Attendance.Meta\<close>: no two rows with the
  same non-null email and the same date.
\<close>

definition row_key :: "attendance \<Rightarrow> string option \<times> cal_date" where
  "row_key r = (employee_email r, date r)"

definition uniq_attendance_email_date :: "attendance list \<Rightarrow> bool" where
  "uniq_attendance_email_date store \<longleftrightarrow>
     distinct (map row_key (filter (\<lambda>r. employee_email r \<noteq> None) store))"

text \<open>Whether the database accepts the written row \<open>r\<close> in the table \<open>store\<close> that holds it.\<close>

definition accepts :: "attendance list \<Rightarrow> attendance \<Rightarrow> bool" where
  "accepts store r \<longleftrightarrow>
     employee_email r = None \<or> length (filter (\<lambda>x. row_key x = row_key r) store) \<le> 1"

text \<open>
  \<open>Attendance.objects.update_or_create(employee_email=eml, date=d, defaults={
  "check_in_time": t, "status": "P", "employee": u})\<close>: the rows with this email and date
  are looked up; with none a row is created, with one it is updated in its place, with
  more the lookup raises. Both ways the row goes through \<^const>\<open>save\<close>.
\<close>

definition update_or_create ::
  "attendance list \<Rightarrow> string \<Rightarrow> cal_date \<Rightarrow> time_of_day \<Rightarrow> user option
     \<Rightarrow> string + attendance list \<times> bool"
where
  "update_or_create store eml d t u =
     (case filter (\<lambda>r. row_key r = (Some eml, d)) store of
        [] \<Rightarrow>
          (let obj = save \<lparr>employee = u, employee_email = Some eml, date = d,
                           check_in_time = Some t, status = Present\<rparr>;
               store' = store @ [obj]
           in if accepts store' obj then Inr (store', True) else Inl ''IntegrityError'')
      | [r] \<Rightarrow>
          (let obj = save (r\<lparr>check_in_time := Some t, status := Present, employee := u\<rparr>);
               store' = map (\<lambda>x. if row_key x = (Some eml, d) then obj else x) store
           in if accepts store' obj then Inr (store', False) else Inl ''IntegrityError'')
      | _ \<Rightarrow> Inl ''MultipleObjectsReturned'')"

subsection \<open>The upsert loop and the view (views.py, lines 381-412)\<close>

text \<open>
  The loop over \<open>earliest.iterrows()\<close>. An exception leaves the loop; the rows written
  before it stay written, so the table is returned in every case.
\<close>

fun upsert ::
  "user list \<Rightarrow> clean_row list \<Rightarrow> attendance list \<Rightarrow> nat \<Rightarrow> nat
     \<Rightarrow> (string + nat \<times> nat) \<times> attendance list"
where
  "upsert users [] store created updated = (Inr (created, updated), store)"
| "upsert users (row # rest) store created updated =
     (case row of (e, d, t) \<Rightarrow>
        let eml = str_lower e;
            u = find_user users eml
        in (case update_or_create store eml d t u of
              Inl err \<Rightarrow> (Inl err, store)
            | Inr (store', was_created) \<Rightarrow>
                (if was_created then upsert users rest store' (created + 1) updated
                 else upsert users rest store' created (updated + 1))))"

datatype error =
    MissingColumns "string list"
  | DateParseError string
  | Unhandled string

record diagnostics =
  used_date :: string
  used_time :: string
  used_email :: string
  total_rows :: nat
  total_pairs_any_time :: nat
  null_time_rows :: nat
  processed_pairs :: nat
  created :: nat
  updated :: nat

text \<open>
  Lines 286-357: the columns are normalised and resolved, then the three fields are
  parsed. A missing column and a failure of the date parse are reported to the user; a
  repeated label of the email or time column, and an exception of the generic time parse,
  are not caught.
\<close>

definition normalize ::
  "to_datetime_fn \<Rightarrow> dataframe \<Rightarrow> error + (string \<times> string \<times> string) \<times> parsed_row list"
where
  "normalize to_datetime df0 =
     (let df = df0\<lparr>columns := normalize_columns (columns df0)\<rparr>;
          cols = columns df
      in case (col_date cols, col_time cols, col_email cols) of
           (Some cd, Some ct, Some ce) \<Rightarrow>
             (case series df cd of
                None \<Rightarrow> Inl (DateParseError ''to assemble mappings requires year, month, day'')
              | Some dcol \<Rightarrow>
                  (case parse_date to_datetime dcol of
                     Inl e \<Rightarrow> Inl (DateParseError e)
                   | Inr dates \<Rightarrow>
                       (case series df ce of
                          None \<Rightarrow> Inl (Unhandled ''AttributeError'')
                        | Some ecol \<Rightarrow>
                            (case series df ct of
                               None \<Rightarrow> Inl (Unhandled ''AttributeError'')
                             | Some tcol \<Rightarrow>
                                 (case parse_time to_datetime tcol of
                                    Inl e \<Rightarrow> Inl (Unhandled e)
                                  | Inr tms \<Rightarrow>
                                      Inr ((cd, ct, ce),
                                           zip (parse_email ecol) (zip dates tms)))))))
         | _ \<Rightarrow> Inl (MissingColumns (missing cols)))"

text \<open>
  The view writes its working columns under the labels \<open>__date\<close>, \<open>__email\<close> and
  \<open>__time\<close>. Where the upload already has one of them twice, \<open>sort_values\<close> finds the
  label ambiguous and raises.
\<close>

definition label_clash :: "string list \<Rightarrow> bool" where
  "label_clash cols \<longleftrightarrow>
     list_ex (\<lambda>l. 1 < count_list cols l) [''__date'', ''__email'', ''__time'']"

text \<open>
  \<open>upload_attendance\<close> for a POST request whose file has been read into \<open>df0\<close>: the
  outcome shown to the user, and the \<open>Attendance\<close> table afterwards.
\<close>

definition upload_attendance ::
  "to_datetime_fn \<Rightarrow> user list \<Rightarrow> attendance list \<Rightarrow> dataframe
     \<Rightarrow> (error + diagnostics) \<times> attendance list"
where
  "upload_attendance to_datetime users store df0 =
     (case normalize to_datetime df0 of
        Inl e \<Rightarrow> (Inl e, store)
      | Inr (used, ps) \<Rightarrow>
          if label_clash (normalize_columns (columns df0))
          then (Inl (Unhandled ''ValueError''), store)
          else
            (let early = earliest (df_clean ps)
             in case upsert users early store 0 0 of
                  (Inl err, store') \<Rightarrow> (Inl (Unhandled err), store')
                | (Inr (c, u), store') \<Rightarrow>
                    (Inr \<lparr>used_date = fst used, used_time = fst (snd used),
                          used_email = snd (snd used),
                          total_rows = length (rows df0),
                          total_pairs_any_time = count_pairs_any_time ps,
                          null_time_rows = count_null_time ps,
                          processed_pairs = length early,
                          created = c, updated = u\<rparr>, store')))"

subsection \<open>A reference reading of the generic parse\<close>

text \<open>The first strategy of an ordered list that produces a value.\<close>

fun first_some :: "'a option list \<Rightarrow> 'a option" where
  "first_some [] = None"
| "first_some (x # xs) = (case x of None \<Rightarrow> first_some xs | Some v \<Rightarrow> Some v)"

text \<open>
  Modelled from the spec: the generic parse \<open>pandas.to_datetime(.., dayfirst=True)\<close> is
  library code, not part of the repository. The specification says of it: "parse using a
  day-first locale convention (ambiguous dd/mm vs mm/dd numeric dates resolve to
  day-first); unparseable values become absent", and for times "a generic day-first
  datetime parse". The reading below covers numeric dates written with slashes, alone or
  followed by hour:minute:second: the order asked for is tried first, the other order
  only when the first names no date; every other cell is absent. It never raises.
\<close>

definition spec_to_datetime :: to_datetime_fn where
  "spec_to_datetime kw col =
     Inr (\<lambda>c. case c of
                 Text s \<Rightarrow>
                   if dayfirst kw
                   then first_some [strptime ''%d/%m/%Y'' s, strptime ''%m/%d/%Y'' s,
                                    strptime ''%d/%m/%Y %H:%M:%S'' s,
                                    strptime ''%m/%d/%Y %H:%M:%S'' s]
                   else first_some [strptime ''%m/%d/%Y'' s, strptime ''%d/%m/%Y'' s,
                                    strptime ''%m/%d/%Y %H:%M:%S'' s,
                                    strptime ''%d/%m/%Y %H:%M:%S'' s]
               | _ \<Rightarrow> None)"

subsection \<open>Vocabulary for the facts below\<close>

text \<open>
  When \<open>save\<close> leaves the email of a row alone: the email is not empty, or the linked
  account has none to copy.
\<close>

definition keeps_email :: "string \<Rightarrow> user option \<Rightarrow> bool" where
  "keeps_email eml u \<longleftrightarrow> eml \<noteq> [] \<or> (case u of None \<Rightarrow> True | Some a \<Rightarrow> user_email a = [])"

text \<open>The rows of the table under the key \<open>(e, d)\<close>: what the lookup of
  \<open>update_or_create\<close> finds.\<close>

definition stored :: "attendance list \<Rightarrow> string \<Rightarrow> cal_date \<Rightarrow> attendance list" where
  "stored store e d = filter (\<lambda>r. row_key r = (Some e, d)) store"

text \<open>
  What the loop leaves under the key of a row of \<open>earliest\<close>: the row's time, status
  \<open>Present\<close>, and the account resolved for the email at that moment.
\<close>

definition written :: "user list \<Rightarrow> clean_row \<Rightarrow> attendance \<Rightarrow> bool" where
  "written users row x \<longleftrightarrow>
     employee_email x = Some (str_lower (fst row)) \<and> date x = fst (snd row) \<and>
     check_in_time x = Some (snd (snd row)) \<and> status x = Present \<and>
     employee x = find_user users (str_lower (fst row))"

text \<open>The key the loop looks up for a row of \<open>earliest\<close>, and whether the table has it.\<close>

definition upsert_key :: "clean_row \<Rightarrow> string \<times> cal_date" where
  "upsert_key row = (str_lower (fst row), fst (snd row))"

definition is_new :: "attendance list \<Rightarrow> clean_row \<Rightarrow> bool" where
  "is_new store row \<longleftrightarrow> stored store (str_lower (fst row)) (fst (snd row)) = []"

text \<open>
  The table after the loop has run over \<open>rws\<close>: the constraint holds, one row was added
  for every key that was new, every key of \<open>rws\<close> has exactly its written row, and the
  rows under other keys are as before.
\<close>

definition upsert_post ::
  "user list \<Rightarrow> clean_row list \<Rightarrow> attendance list \<Rightarrow> attendance list \<Rightarrow> bool" where
  "upsert_post users rws store store' \<longleftrightarrow>
     uniq_attendance_email_date store' \<and>
     length store' = length store + length (filter (is_new store) rws) \<and>
     (\<forall>row \<in> set rws. \<exists>x. stored store' (str_lower (fst row)) (fst (snd row)) = [x] \<and>
                              written users row x) \<and>
     (\<forall>e d. (e, d) \<notin> upsert_key ` set rws \<longrightarrow> stored store' e d = stored store e d)"

text \<open>
  The rows of \<open>earliest\<close> the view iterates over for an upload (none when it stops
  before the aggregation).
\<close>

definition groups :: "to_datetime_fn \<Rightarrow> dataframe \<Rightarrow> clean_row list" where
  "groups to_datetime df =
     (case normalize to_datetime df of Inl e \<Rightarrow> [] | Inr (used, ps) \<Rightarrow> earliest (df_clean ps))"

text \<open>The upload of the end-to-end scenario of the specification.\<close>

definition scenario :: dataframe where
  "scenario =
     \<lparr>columns = [''email'', ''date'', ''time''],
      rows = [[Text ''a@x.com'', Text ''01/05/2024'', Text ''09:00''],
              [Text ''a@x.com'', Text ''01/05/2024'', Text ''08:30''],
              [Text ''b@y.com'', Text ''01/05/2024'', Text ''bad'']]\<rparr>"

text \<open>
  The wording of the specification for the time of one cell: an ordered list of
  strategies, each tried only when the ones before it produced no value. \<open>f\<close> is what
  the generic parse returned for the column.
\<close>

definition cascade :: "(cell \<Rightarrow> timestamp option) \<Rightarrow> string \<Rightarrow> timestamp option" where
  "cascade f s =
     first_some [f (Text s), strptime ''%d/%m/%Y %H:%M:%S'' s, strptime ''%m/%d/%Y %H:%M:%S'' s,
                 strptime ''%H:%M:%S'' s, strptime ''%H:%M'' s, excel_serial s]"

text \<open>A table that already holds a@x.com / 2024-05-01 with the check-in 08:00.\<close>

definition earlier_store :: "attendance list" where
  "earlier_store =
     [\<lparr>employee = None, employee_email = Some ''a@x.com'', date = (2024, 5, 1),
       check_in_time = Some (8, 0, 0, 0), status = Present\<rparr>]"

text \<open>An upload whose only row has blanks in the email cell.\<close>

definition blank_identity_upload :: dataframe where
  "blank_identity_upload =
     \<lparr>columns = [''email'', ''date'', ''time''],
      rows = [[Text ''   '', Text ''01/05/2024'', Text ''09:00'']]\<rparr>"

text \<open>An upload whose only date-like header is "Report Date".\<close>

definition report_date_upload :: dataframe where
  "report_date_upload =
     \<lparr>columns = [''Email '', ''Report Date'', ''Time''],
      rows = [[Text ''a@x.com'', Text ''01/05/2024'', Text ''09:00'']]\<rparr>"

text \<open>
  The wording of the specification for the linked account: the account whose identity
  matches, or none if no account matches. Where several match, the view takes the first in
  the order of the table. Two emails match when they are equal once the letters a-z are
  written in upper case.
\<close>

definition ascii_upper :: "char \<Rightarrow> char" where
  "ascii_upper c =
     (let n = (of_char c :: nat) in if 97 \<le> n \<and> n \<le> 122 then char_of (n - 32) else c)"

definition same_ignoring_case :: "string \<Rightarrow> string \<Rightarrow> bool" where
  "same_ignoring_case a b \<longleftrightarrow> map ascii_upper a = map ascii_upper b"

definition first_such :: "('a \<Rightarrow> bool) \<Rightarrow> 'a list \<Rightarrow> 'a option \<Rightarrow> bool" where
  "first_such p xs r \<longleftrightarrow>
     (case r of
        None \<Rightarrow> list_all (\<lambda>x. \<not> p x) xs
      | Some y \<Rightarrow> list_ex (\<lambda>i. xs ! i = y \<and> p y \<and> list_all (\<lambda>j. \<not> p (xs ! j)) [0..<i])
                  [0..<length xs])"

definition linked_account :: "user list \<Rightarrow> string \<Rightarrow> user option \<Rightarrow> bool" where
  "linked_account users eml a \<longleftrightarrow>
     first_such (\<lambda>u. same_ignoring_case (user_email u) eml) users a"

text \<open>
  Three accounts, two of which match a@x.com up to case, and a table that holds
  a@x.com / 2024-05-01 with the check-in 08:00, linked to the account that does not
  match.
\<close>

definition accounts :: "user list" where
  "accounts =
     [\<lparr>user_pk = 1, user_email = ''bob@y.com''\<rparr>,
      \<lparr>user_pk = 2, user_email = ''A@X.com''\<rparr>,
      \<lparr>user_pk = 3, user_email = ''a@x.com''\<rparr>]"

definition linked_store :: "attendance list" where
  "linked_store =
     [\<lparr>employee = Some \<lparr>user_pk = 1, user_email = ''bob@y.com''\<rparr>,
       employee_email = Some ''a@x.com'', date = (2024, 5, 1),
       check_in_time = Some (8, 0, 0, 0), status = Present\<rparr>]"

subsection \<open>Facts about column resolution\<close>

lemma find_first_header: "first_header p xs (find p xs)"
proof (cases "find p xs")
  case None
  have "list_all (\<lambda>c. \<not> p c) xs"
    using None by (simp add: find_None_iff list_all_iff)
  then show ?thesis
    unfolding first_header_def None by simp
next
  case (Some c)
  then obtain i where i: "i < length xs" "p (xs ! i)" "c = xs ! i" "\<forall>j<i. \<not> p (xs ! j)"
    by (auto simp: find_Some_iff)
  then show ?thesis
    using Some by (auto simp: first_header_def list_ex_iff list_all_iff intro!: bexI [of _ i])
qed

lemma first_header_unique:
  assumes "first_header p xs r" and "first_header p xs r'"
  shows "r = r'"
proof -
  have none: "\<not> first_header p xs None" if "first_header p xs (Some c)" for c
    using that by (auto simp: first_header_def list_ex_iff list_all_iff)
  show ?thesis
  proof (cases r)
    case None
    then show ?thesis using assms none by (cases r') auto
  next
    case (Some c)
    show ?thesis
    proof (cases r')
      case None
      then show ?thesis using assms none Some by auto
    next
      case (Some c')
      from assms \<open>r = Some c\<close> obtain i where
        i: "i < length xs" "xs ! i = c" "p c" "\<forall>j<i. \<not> p (xs ! j)"
        by (auto simp: first_header_def list_ex_iff list_all_iff)
      from assms Some obtain k where
        k: "k < length xs" "xs ! k = c'" "p c'" "\<forall>j<k. \<not> p (xs ! j)"
        by (auto simp: first_header_def list_ex_iff list_all_iff)
      have "i = k"
        using i k by (metis linorder_neqE_nat)
      then show ?thesis using i k Some \<open>r = Some c\<close> by simp
    qed
  qed
qed

lemma first_header_iff: "first_header p xs r \<longleftrightarrow> r = find p xs"
  using find_first_header first_header_unique by metis

lemma column_examples:
  "col_time [''check_in'', ''time'', ''in time''] = Some ''in time''"
  "col_time [''check_in'', ''check-in'', ''intime'', ''in_time''] = Some ''in_time''"
  "col_time [''check_in'', ''check-in'', ''check in time'', ''intime''] = Some ''intime''"
  "col_time [''check_in'', ''check-in'', ''check in time''] = Some ''check in time''"
  "col_time [''time'', ''check_in'', ''check-in''] = Some ''check-in''"
  "col_time [''start time'', ''time'', ''check_in''] = Some ''check_in''"
  "col_time [''logout time'', ''start time'', ''time''] = Some ''time''"
  "col_time [''logout time'', ''timeout'', ''start time'', ''end time''] = Some ''start time''"
  "col_time [''logout time'', ''time out''] = None"
  "col_date [''entry date'', ''date''] = Some ''date''"
  "col_date [''report date'', ''month-end date'', ''entry date'', ''date of birth'']
     = Some ''entry date''"
  "col_date [''report date'', ''month-end date''] = None"
  "col_email [''name'', ''work email'', ''email''] = Some ''work email''"
  "col_email [''name'', ''date'', ''time''] = None"
  by code_simp+

text \<open>
  C4. On every (lower-cased, trimmed) header list the three columns the code picks are the
  ones the specification describes: the identity column is the first header containing
  "email"; the date column is "date" when that header is present and otherwise the first
  header containing "date" and neither "month" nor "report"; the time column is the first
  of "in time", "in_time", "intime", "check in time", "check-in", "check_in", in this
  order, that is a header, else "time" when present, else the first header containing
  "time" and neither "out" nor "logout". Each description determines its column
  uniquely. On sample headers: an earlier candidate wins over a later one wherever the
  headers stand, every candidate wins over "time", "time" wins over a header that merely
  contains it, headers with "out" or "logout", "month" or "report" are passed over, and
  the first header containing "email" is taken.
\<close>

theorem C4_column_resolution:
  "(spec_identity_column cols r \<longleftrightarrow> r = col_email cols) \<and>
   (spec_date_column cols r \<longleftrightarrow> r = col_date cols) \<and>
   (spec_time_column cols r \<longleftrightarrow> r = col_time cols) \<and>
   col_time [''check_in'', ''time'', ''in time''] = Some ''in time'' \<and>
   col_time [''check_in'', ''check-in'', ''intime'', ''in_time''] = Some ''in_time'' \<and>
   col_time [''check_in'', ''check-in'', ''check in time'', ''intime''] = Some ''intime'' \<and>
   col_time [''check_in'', ''check-in'', ''check in time''] = Some ''check in time'' \<and>
   col_time [''time'', ''check_in'', ''check-in''] = Some ''check-in'' \<and>
   col_time [''start time'', ''time'', ''check_in''] = Some ''check_in'' \<and>
   col_time [''logout time'', ''start time'', ''time''] = Some ''time'' \<and>
   col_time [''logout time'', ''timeout'', ''start time'', ''end time''] = Some ''start time'' \<and>
   col_time [''logout time'', ''time out''] = None \<and>
   col_date [''entry date'', ''date''] = Some ''date'' \<and>
   col_date [''report date'', ''month-end date'', ''entry date'', ''date of birth'']
     = Some ''entry date'' \<and>
   col_date [''report date'', ''month-end date''] = None \<and>
   col_email [''name'', ''work email'', ''email''] = Some ''work email'' \<and>
   col_email [''name'', ''date'', ''time''] = None"
proof -
  have e: "spec_identity_column cols r \<longleftrightarrow> r = col_email cols"
    by (simp add: spec_identity_column_def col_email_def first_header_iff)
  have d: "spec_date_column cols r \<longleftrightarrow> r = col_date cols"
    by (simp add: spec_date_column_def col_date_def first_header_iff)
  define cands where
    "cands = [''in time'', ''in_time'', ''intime'', ''check in time'', ''check-in'', ''check_in'']"
  have code: "in_time_candidates = cands"
    by (simp add: in_time_candidates_def cands_def)
  have spec: "spec_time_column cols r \<longleftrightarrow>
     (if list_ex (\<lambda>c. c \<in> set cols) cands
      then first_header (\<lambda>c. c \<in> set cols) cands r
      else if ''time'' \<in> set cols then r = Some ''time''
      else first_header
             (\<lambda>c. sublist ''time'' c \<and> \<not> (sublist ''out'' c \<or> sublist ''logout'' c)) cols r)"
    unfolding spec_time_column_def cands_def ..
  have t: "spec_time_column cols r \<longleftrightarrow> r = col_time cols"
  proof (cases "find (\<lambda>c. c \<in> set cols) cands")
    case None
    then have "\<not> list_ex (\<lambda>c. c \<in> set cols) cands"
      by (auto simp: find_None_iff list_ex_iff)
    then show ?thesis
      using None by (simp add: spec col_time_def code first_header_iff)
  next
    case (Some c)
    then have "list_ex (\<lambda>c. c \<in> set cols) cands"
      by (auto simp: find_Some_iff list_ex_iff)
    then show ?thesis
      using Some by (simp add: spec col_time_def code first_header_iff)
  qed
  show ?thesis
    using e d t column_examples by (intro conjI)
qed

subsection \<open>Facts about the store and the upsert loop\<close>

lemma char_lower_idem: "char_lower (char_lower c) = char_lower c"
  by (auto simp: char_lower_def Let_def)

lemma str_lower_idem: "str_lower (str_lower s) = str_lower s"
  by (simp add: str_lower_def char_lower_idem)

lemma str_lower_Nil_iff: "str_lower s = [] \<longleftrightarrow> s = []"
  by (simp add: str_lower_def)

lemma find_user_empty: "find_user users [] = Some a \<Longrightarrow> user_email a = []"
  by (auto simp: find_user_def find_Some_iff iexact_def)

lemma keeps_email_find_user: "keeps_email eml (find_user users eml)"
  by (cases eml) (auto simp: keeps_email_def find_user_empty split: option.splits)

lemma save_keeps:
  assumes "employee_email r = Some eml" "keeps_email eml (employee r)" "check_in_time r = Some t"
  shows "save r = r\<lparr>status := Present\<rparr>"
  using assms by (auto simp: save_def keeps_email_def Let_def split: option.splits)

lemma distinct_map_iff_count:
  "distinct (map f xs) \<longleftrightarrow> (\<forall>k. length (filter (\<lambda>x. f x = k) xs) \<le> 1)"
proof (induction xs)
  case Nil
  then show ?case by simp
next
  case (Cons a xs)
  show ?case
  proof
    assume d: "distinct (map f (a # xs))"
    then have na: "filter (\<lambda>x. f x = f a) xs = []"
      by (auto simp: filter_empty_conv intro: rev_image_eqI)
    from d Cons have "\<forall>k. length (filter (\<lambda>x. f x = k) xs) \<le> 1" by simp
    then show "\<forall>k. length (filter (\<lambda>x. f x = k) (a # xs)) \<le> 1"
      using na by auto
  next
    assume h: "\<forall>k. length (filter (\<lambda>x. f x = k) (a # xs)) \<le> 1"
    then have "length (filter (\<lambda>x. f x = f a) (a # xs)) \<le> 1" by blast
    then have "filter (\<lambda>x. f x = f a) xs = []" by simp
    then have "f a \<notin> f ` set xs"
      by (auto simp: filter_empty_conv)
    moreover have "\<forall>k. length (filter (\<lambda>x. f x = k) xs) \<le> 1"
    proof
      fix k
      from h have "length (filter (\<lambda>x. f x = k) (a # xs)) \<le> 1" by blast
      then show "length (filter (\<lambda>x. f x = k) xs) \<le> 1"
        by (simp split: if_splits)
    qed
    ultimately show "distinct (map f (a # xs))"
      using Cons by simp
  qed
qed

lemma uniq_iff_stored:
  "uniq_attendance_email_date store \<longleftrightarrow> (\<forall>e d. length (stored store e d) \<le> 1)"
proof -
  have eq: "filter (\<lambda>x. row_key x = (Some e, d)) (filter (\<lambda>r. employee_email r \<noteq> None) store)
            = stored store e d" for e d
    by (auto simp: stored_def row_key_def intro: filter_cong)
  have nn: "filter (\<lambda>x. row_key x = (None, d)) (filter (\<lambda>r. employee_email r \<noteq> None) store) = []" for d
    by (auto simp: row_key_def filter_empty_conv)
  show ?thesis
    unfolding uniq_attendance_email_date_def distinct_map_iff_count
  proof
    assume h: "\<forall>k. length (filter (\<lambda>x. row_key x = k) (filter (\<lambda>r. employee_email r \<noteq> None) store)) \<le> 1"
    show "\<forall>e d. length (stored store e d) \<le> 1"
      using h eq by metis
  next
    assume h: "\<forall>e d. length (stored store e d) \<le> 1"
    show "\<forall>k. length (filter (\<lambda>x. row_key x = k) (filter (\<lambda>r. employee_email r \<noteq> None) store)) \<le> 1"
    proof
      fix k :: "string option \<times> cal_date"
      obtain eo d where k: "k = (eo, d)" by (cases k)
      show "length (filter (\<lambda>x. row_key x = k) (filter (\<lambda>r. employee_email r \<noteq> None) store)) \<le> 1"
      proof (cases eo)
        case None
        then show ?thesis using nn k by simp
      next
        case (Some e)
        from h have "length (stored store e d) \<le> 1" by blast
        then show ?thesis using eq [of e d] k Some by simp
      qed
    qed
  qed
qed

lemma length_filter_map_inv:
  "(\<And>x. p (g x) = p x) \<Longrightarrow> length (filter p (map g xs)) = length (filter p xs)"
  by (induction xs) auto

lemma stored_append: "stored (xs @ ys) e d = stored xs e d @ stored ys e d"
  by (simp add: stored_def)

lemma stored_replace_same:
  assumes "row_key obj = (Some e, d)"
  shows "stored (map (\<lambda>x. if row_key x = (Some e, d) then obj else x) store) e d
         = map (\<lambda>x. obj) (stored store e d)"
  using assms unfolding stored_def by (induction store) auto

lemma stored_replace_other:
  assumes "row_key obj = (Some e, d)" and "(e', d') \<noteq> (e, d)"
  shows "stored (map (\<lambda>x. if row_key x = (Some e, d) then obj else x) store) e' d'
         = stored store e' d'"
  using assms unfolding stored_def by (induction store) auto

lemma stored_key: "x \<in> set (stored store e d) \<Longrightarrow> employee_email x = Some e \<and> date x = d"
  by (auto simp: stored_def row_key_def)

lemma uoc_create:
  assumes "stored store eml d = []" and "keeps_email eml u"
  shows "update_or_create store eml d t u =
           Inr (store @ [\<lparr>employee = u, employee_email = Some eml, date = d,
                          check_in_time = Some t, status = Present\<rparr>], True)"
proof -
  let ?obj = "\<lparr>employee = u, employee_email = Some eml, date = d,
               check_in_time = Some t, status = Present\<rparr>"
  have sv: "save ?obj = ?obj"
    using save_keeps [of ?obj eml t] assms(2) by simp
  have key: "row_key ?obj = (Some eml, d)"
    by (simp add: row_key_def)
  have "filter (\<lambda>x. row_key x = row_key ?obj) (store @ [?obj]) = [?obj]"
    using assms(1) key by (simp add: stored_def)
  then have "accepts (store @ [?obj]) ?obj"
    by (simp add: accepts_def)
  then show ?thesis
    using assms(1) sv by (simp add: update_or_create_def stored_def Let_def)
qed

lemma uoc_update:
  assumes "stored store eml d = [r]" and "keeps_email eml u"
  shows "update_or_create store eml d t u =
           Inr (map (\<lambda>x. if row_key x = (Some eml, d)
                          then r\<lparr>check_in_time := Some t, status := Present, employee := u\<rparr>
                          else x) store, False)"
proof -
  let ?obj = "r\<lparr>check_in_time := Some t, status := Present, employee := u\<rparr>"
  have "r \<in> set (stored store eml d)"
    using assms(1) by simp
  then have rk: "employee_email r = Some eml" "date r = d"
    using stored_key by blast+
  have sv: "save ?obj = ?obj"
    using save_keeps [of ?obj eml t] assms(2) rk by simp
  have key: "row_key ?obj = (Some eml, d)"
    using rk by (simp add: row_key_def)
  let ?store' = "map (\<lambda>x. if row_key x = (Some eml, d) then ?obj else x) store"
  have "filter (\<lambda>x. row_key x = row_key ?obj) ?store' = stored ?store' eml d"
    using key by (simp add: stored_def)
  also have "\<dots> = [?obj]"
    using stored_replace_same [OF key] assms(1) by simp
  finally have "accepts ?store' ?obj"
    by (simp add: accepts_def)
  then show ?thesis
    using assms(1) sv by (simp add: update_or_create_def stored_def Let_def)
qed

lemma uoc_step:
  assumes le: "length (stored store (str_lower e) d) \<le> 1"
  shows "\<exists>store' x.
           update_or_create store (str_lower e) d t (find_user users (str_lower e))
             = Inr (store', is_new store (e, d, t)) \<and>
           stored store' (str_lower e) d = [x] \<and> written users (e, d, t) x \<and>
           (\<forall>e' d'. (e', d') \<noteq> (str_lower e, d) \<longrightarrow> stored store' e' d' = stored store e' d') \<and>
           length store' = length store + (if is_new store (e, d, t) then 1 else 0)"
proof (cases "stored store (str_lower e) d")
  case Nil
  let ?obj = "\<lparr>employee = find_user users (str_lower e), employee_email = Some (str_lower e),
               date = d, check_in_time = Some t, status = Present\<rparr>"
  have "update_or_create store (str_lower e) d t (find_user users (str_lower e))
          = Inr (store @ [?obj], True)"
    using uoc_create [OF Nil keeps_email_find_user] .
  moreover have "stored (store @ [?obj]) (str_lower e) d = [?obj]"
    using Nil by (simp add: stored_append) (simp add: stored_def row_key_def)
  moreover have "written users (e, d, t) ?obj"
    by (simp add: written_def)
  moreover have "stored (store @ [?obj]) e' d' = stored store e' d'"
    if "(e', d') \<noteq> (str_lower e, d)" for e' d'
    using that by (simp add: stored_append) (auto simp: stored_def row_key_def)
  ultimately show ?thesis
    using Nil by (simp add: is_new_def)
next
  case (Cons r rs)
  with le have st: "stored store (str_lower e) d = [r]" by simp
  let ?obj = "r\<lparr>check_in_time := Some t, status := Present,
               employee := find_user users (str_lower e)\<rparr>"
  let ?store' = "map (\<lambda>x. if row_key x = (Some (str_lower e), d) then ?obj else x) store"
  have "r \<in> set (stored store (str_lower e) d)"
    using st by simp
  then have rk: "employee_email r = Some (str_lower e)" "date r = d"
    using stored_key by blast+
  then have key: "row_key ?obj = (Some (str_lower e), d)"
    by (simp add: row_key_def)
  have "update_or_create store (str_lower e) d t (find_user users (str_lower e))
          = Inr (?store', False)"
    using uoc_update [OF st keeps_email_find_user] .
  moreover have "stored ?store' (str_lower e) d = [?obj]"
    using stored_replace_same [OF key] st by simp
  moreover have "written users (e, d, t) ?obj"
    using rk by (simp add: written_def)
  moreover have "stored ?store' e' d' = stored store e' d'"
    if "(e', d') \<noteq> (str_lower e, d)" for e' d'
    using stored_replace_other [OF key that] .
  ultimately show ?thesis
    using st by (simp add: is_new_def)
qed

lemma upsert_post_uniq: "upsert_post users rws store store' \<Longrightarrow> uniq_attendance_email_date store'"
  unfolding upsert_post_def by blast

lemma upsert_post_length:
  "upsert_post users rws store store' \<Longrightarrow>
     length store' = length store + length (filter (is_new store) rws)"
  unfolding upsert_post_def by blast

lemma upsert_post_written:
  "upsert_post users rws store store' \<Longrightarrow> row \<in> set rws \<Longrightarrow>
     \<exists>x. stored store' (str_lower (fst row)) (fst (snd row)) = [x] \<and> written users row x"
  unfolding upsert_post_def by blast

lemma upsert_post_other:
  "upsert_post users rws store store' \<Longrightarrow> (e, d) \<notin> upsert_key ` set rws \<Longrightarrow>
     stored store' e d = stored store e d"
  unfolding upsert_post_def by blast

lemma upsert_loop:
  assumes "uniq_attendance_email_date store" and "distinct (map upsert_key rws)"
  shows "\<exists>store'. upsert users rws store c u =
           (Inr (c + length (filter (is_new store) rws),
                 u + length (filter (\<lambda>r. \<not> is_new store r) rws)), store') \<and>
           upsert_post users rws store store'"
  using assms
proof (induction rws arbitrary: store c u)
  case Nil
  then show ?case by (simp add: upsert_post_def)
next
  case (Cons row rest)
  obtain e d t where row: "row = (e, d, t)"
    by (metis prod_cases3)
  have uq: "length (stored store e' d') \<le> 1" for e' d'
    using Cons.prems(1) uniq_iff_stored by blast
  from uoc_step [OF uq, of e d t users] obtain store1 x where
    s1: "update_or_create store (str_lower e) d t (find_user users (str_lower e))
           = Inr (store1, is_new store (e, d, t))"
    and x1: "stored store1 (str_lower e) d = [x]"
    and x2: "written users (e, d, t) x"
    and other: "\<And>e' d'. (e', d') \<noteq> (str_lower e, d) \<Longrightarrow> stored store1 e' d' = stored store e' d'"
    and len1: "length store1 = length store + (if is_new store (e, d, t) then 1 else 0)"
    by blast
  have uniq1: "uniq_attendance_email_date store1"
    unfolding uniq_iff_stored
  proof (intro allI)
    fix e' d'
    show "length (stored store1 e' d') \<le> 1"
    proof (cases "(e', d') = (str_lower e, d)")
      case True
      then show ?thesis using x1 by simp
    next
      case False
      then show ?thesis using other uq by simp
    qed
  qed
  have dist: "distinct (map upsert_key rest)"
    using Cons.prems(2) by simp
  have "upsert_key row \<notin> upsert_key ` set rest"
    using Cons.prems(2) by simp
  then have notin: "(str_lower e, d) \<notin> upsert_key ` set rest"
    by (simp add: row upsert_key_def)
  have same_new: "is_new store1 r = is_new store r" if "r \<in> set rest" for r
  proof -
    have "(str_lower (fst r), fst (snd r)) \<noteq> (str_lower e, d)"
      using that notin by (auto simp: upsert_key_def image_iff)
    then show ?thesis
      using other unfolding is_new_def by simp
  qed
  have f1: "filter (is_new store1) rest = filter (is_new store) rest"
    using same_new by (auto intro: filter_cong)
  have f2: "filter (\<lambda>r. \<not> is_new store1 r) rest = filter (\<lambda>r. \<not> is_new store r) rest"
    using same_new by (auto intro: filter_cong)
  define c1 where "c1 = (if is_new store (e, d, t) then c + 1 else c)"
  define u1 where "u1 = (if is_new store (e, d, t) then u else u + 1)"
  from Cons.IH [OF uniq1 dist, of c1 u1] obtain store' where
    run: "upsert users rest store1 c1 u1 =
            (Inr (c1 + length (filter (is_new store1) rest),
                  u1 + length (filter (\<lambda>r. \<not> is_new store1 r) rest)), store')"
    and post: "upsert_post users rest store1 store'"
    by blast
  have step: "upsert users (row # rest) store c u = upsert users rest store1 c1 u1"
    using s1 by (simp add: row c1_def u1_def)
  have res: "upsert users (row # rest) store c u =
           (Inr (c + length (filter (is_new store) (row # rest)),
                 u + length (filter (\<lambda>r. \<not> is_new store r) (row # rest))), store')"
    unfolding step run f1 f2 by (simp add: row c1_def u1_def)
  have keep: "stored store' (str_lower e) d = [x]"
    using upsert_post_other [OF post notin] x1 by simp
  have p1: "uniq_attendance_email_date store'"
    using post by (rule upsert_post_uniq)
  have p2: "length store' = length store + length (filter (is_new store) (row # rest))"
    using upsert_post_length [OF post] len1 f1 by (simp add: row)
  have p3: "\<exists>y. stored store' (str_lower (fst r)) (fst (snd r)) = [y] \<and> written users r y"
    if "r \<in> set (row # rest)" for r
  proof (cases "r = row")
    case True
    then show ?thesis using keep x2 row by auto
  next
    case False
    then have "r \<in> set rest" using that by simp
    then show ?thesis using upsert_post_written [OF post] by blast
  qed
  have p4: "stored store' e' d' = stored store e' d'"
    if "(e', d') \<notin> upsert_key ` set (row # rest)" for e' d'
  proof -
    from that have a: "(e', d') \<noteq> (str_lower e, d)" and b: "(e', d') \<notin> upsert_key ` set rest"
      by (auto simp: row upsert_key_def)
    from b post have "stored store' e' d' = stored store1 e' d'"
      using upsert_post_other by blast
    then show ?thesis using other [OF a] by simp
  qed
  have "upsert_post users (row # rest) store store'"
    unfolding upsert_post_def using p1 p2 p3 p4 by blast
  then show ?case using res by blast
qed

lemma map_key_earliest:
  "map group_key (earliest rs) = sort (remdups (map group_key (sort rs)))"
  by (simp add: earliest_def groupby_min_def sort_values_def group_key_def comp_def)

lemma distinct_earliest_keys: "distinct (map group_key (earliest rs))"
  by (simp add: map_key_earliest)

lemma set_earliest_keys: "set (map group_key (earliest rs)) = set (map group_key rs)"
  by (simp add: map_key_earliest)

lemma earliest_min:
  assumes "r \<in> set (earliest rs)"
  shows "snd (snd r) = Min {t. (fst r, fst (snd r), t) \<in> set rs}"
    and "(fst r, fst (snd r), snd (snd r)) \<in> set rs"
proof -
  define pick where
    "pick k = min_list (map (\<lambda>r. snd (snd r)) (filter (\<lambda>r. group_key r = k) (sort rs)))" for k
  have "set (earliest rs) = (\<lambda>k. (fst k, snd k, pick k)) ` group_key ` set rs"
    unfolding earliest_def groupby_min_def sort_values_def pick_def by simp
  with assms obtain k where k: "k \<in> group_key ` set rs" and r: "r = (fst k, snd k, pick k)"
    by blast
  let ?ts = "map (\<lambda>r. snd (snd r)) (filter (\<lambda>r. group_key r = k) (sort rs))"
  have ts: "set ?ts = (\<lambda>r. snd (snd r)) ` {x \<in> set rs. group_key x = k}"
    by (simp only: set_map set_filter set_sort)
  have key: "group_key x = k \<longleftrightarrow> fst x = fst k \<and> fst (snd x) = snd k" for x
    by (cases x, cases k) (simp add: group_key_def)
  have set_ts: "set ?ts = {t. (fst k, snd k, t) \<in> set rs}"
  proof (intro set_eqI iffI)
    fix t assume "t \<in> set ?ts"
    then obtain x where "x \<in> set rs" "group_key x = k" "t = snd (snd x)"
      unfolding ts by blast
    then have "x = (fst k, snd k, t)"
      using key [of x] by (simp add: prod_eq_iff)
    then show "t \<in> {t. (fst k, snd k, t) \<in> set rs}"
      using \<open>x \<in> set rs\<close> by simp
  next
    fix t assume "t \<in> {t. (fst k, snd k, t) \<in> set rs}"
    then have "(fst k, snd k, t) \<in> set rs" by simp
    moreover have "group_key (fst k, snd k, t) = k"
      by (simp add: key)
    ultimately have "(fst k, snd k, t) \<in> {x \<in> set rs. group_key x = k}"
      by simp
    then have "snd (snd (fst k, snd k, t)) \<in> set ?ts"
      unfolding ts by (rule imageI)
    then show "t \<in> set ?ts"
      by (simp only: snd_conv)
  qed
  from k obtain x where "x \<in> set rs" "group_key x = k"
    by blast
  then have "snd (snd x) \<in> set ?ts"
    unfolding ts by blast
  then have ne: "?ts \<noteq> []"
    by (metis empty_iff empty_set)
  have m: "pick k = Min (set ?ts)"
    unfolding pick_def using ne by (rule min_list_Min)
  show "snd (snd r) = Min {t. (fst r, fst (snd r), t) \<in> set rs}"
    using m set_ts by (simp add: r)
  have "set ?ts \<noteq> {}"
    using ne by (metis set_empty)
  then have "Min (set ?ts) \<in> set ?ts"
    by (rule Min_in [OF List.finite_set])
  then have "pick k \<in> {t. (fst k, snd k, t) \<in> set rs}"
    using m set_ts by simp
  then show "(fst r, fst (snd r), snd (snd r)) \<in> set rs"
    by (simp add: r)
qed

lemma earliest_example:
  "earliest [(''a@x.com'', (2024, 5, 1), (9, 10, 0, 0)), (''a@x.com'', (2024, 5, 1), (8, 55, 0, 0))]
     = [(''a@x.com'', (2024, 5, 1), (8, 55, 0, 0))]"
  by code_simp

lemma parse_email_lower: "e \<in> set (parse_email col) \<Longrightarrow> str_lower e = e"
  unfolding parse_email_def by (auto simp: str_lower_idem)

lemma normalize_lower:
  assumes "normalize L df = Inr (used, ps)" and "row \<in> set ps"
  shows "str_lower (fst row) = fst row"
proof -
  from assms(1) obtain ecol dates tms where "ps = zip (parse_email ecol) (zip dates tms)"
    unfolding normalize_def Let_def
    by (auto split: option.splits sum.splits prod.splits)
  with assms(2) have "fst row \<in> set (parse_email ecol)"
    by (metis prod.collapse set_zip_leftD)
  then show ?thesis by (rule parse_email_lower)
qed

lemma df_clean_mem:
  "r \<in> set (df_clean ps) \<Longrightarrow> (fst r, Some (fst (snd r)), Some (snd (snd r))) \<in> set ps"
  unfolding df_clean_def by (induction ps) (auto split: option.splits)

lemma groups_lower:
  assumes "r \<in> set (groups L df)"
  shows "str_lower (fst r) = fst r"
proof (cases "normalize L df")
  case (Inl e)
  then show ?thesis using assms by (simp add: groups_def)
next
  case (Inr up)
  obtain used ps where up: "up = (used, ps)" by (cases up)
  from assms Inr up have "r \<in> set (earliest (df_clean ps))"
    by (simp add: groups_def)
  then have "(fst r, fst (snd r), snd (snd r)) \<in> set (df_clean ps)"
    by (rule earliest_min(2))
  then have "(fst r, Some (fst (snd r)), Some (snd (snd r))) \<in> set ps"
    using df_clean_mem by fastforce
  then show ?thesis
    using normalize_lower [of L df used ps] Inr up by fastforce
qed

lemma groups_keys: "map upsert_key (groups L df) = map group_key (groups L df)"
proof (rule map_cong [OF refl])
  fix r assume "r \<in> set (groups L df)"
  then have "str_lower (fst r) = fst r" by (rule groups_lower)
  then show "upsert_key r = group_key r"
    by (cases r) (simp add: upsert_key_def group_key_def)
qed

lemma distinct_groups: "distinct (map upsert_key (groups L df))"
  unfolding groups_keys
  by (simp add: groups_def distinct_earliest_keys split: sum.splits prod.splits)

lemma upload_reaches_loop:
  assumes "normalize L df = Inr (used, ps)" and "\<not> label_clash (normalize_columns (columns df))"
  shows "upload_attendance L users store df =
           (case upsert users (groups L df) store 0 0 of
              (Inl err, store') \<Rightarrow> (Inl (Unhandled err), store')
            | (Inr (c, u), store') \<Rightarrow>
                (Inr \<lparr>used_date = fst used, used_time = fst (snd used),
                      used_email = snd (snd used),
                      total_rows = length (rows df),
                      total_pairs_any_time = count_pairs_any_time ps,
                      null_time_rows = count_null_time ps,
                      processed_pairs = length (groups L df),
                      created = c, updated = u\<rparr>, store'))"
proof -
  have g: "groups L df = earliest (df_clean ps)"
    using assms(1) by (simp add: groups_def)
  show ?thesis
    unfolding g using assms by (simp add: upload_attendance_def Let_def)
qed

lemma upload_run:
  assumes "normalize L df = Inr (used, ps)" and "\<not> label_clash (normalize_columns (columns df))"
    and "uniq_attendance_email_date store"
  shows "\<exists>r store'. upload_attendance L users store df = (Inr r, store') \<and>
           created r = length (filter (is_new store) (groups L df)) \<and>
           updated r = length (filter (\<lambda>x. \<not> is_new store x) (groups L df)) \<and>
           processed_pairs r = length (groups L df) \<and>
           upsert_post users (groups L df) store store'"
proof -
  from upsert_loop [OF assms(3) distinct_groups, of users L df 0 0] obtain store' where
    run: "upsert users (groups L df) store 0 0 =
            (Inr (0 + length (filter (is_new store) (groups L df)),
                  0 + length (filter (\<lambda>r. \<not> is_new store r) (groups L df))), store')"
    and post: "upsert_post users (groups L df) store store'"
    by blast
  show ?thesis
    unfolding upload_reaches_loop [OF assms(1,2)] run using post by simp
qed

lemma upload_failed_normalize:
  "normalize L df = Inl e \<Longrightarrow> upload_attendance L users store df = (Inl e, store)"
  by (simp add: upload_attendance_def)

text \<open>
  C3. Take any upload that reaches the upsert loop, and any table that meets the unique
  constraint. The view returns, and returns again when it is run a second time with the
  same upload on the table the first run left. With N the number of aggregated keys, the
  first run reports created + updated = N, and created = N, updated = 0 when the table
  held no row for the keys of the upload; the second run reports created = 0 and
  updated = N. The first run adds one row for every created key, the second run adds no
  row, and the constraint of one row per (email, date) holds after each run.
\<close>

theorem C3_idempotent_upsert:
  assumes norm: "normalize L df = Inr (used, ps)"
    and clash: "\<not> label_clash (normalize_columns (columns df))"
    and uniq: "uniq_attendance_email_date store"
  shows "\<exists>r1 store1 r2 store2.
           upload_attendance L users store df = (Inr r1, store1) \<and>
           upload_attendance L users store1 df = (Inr r2, store2) \<and>
           processed_pairs r1 = length (groups L df) \<and>
           processed_pairs r2 = length (groups L df) \<and>
           created r1 + updated r1 = length (groups L df) \<and>
           ((\<forall>r \<in> set (groups L df). stored store (fst r) (fst (snd r)) = []) \<longrightarrow>
              created r1 = length (groups L df) \<and> updated r1 = 0) \<and>
           created r2 = 0 \<and> updated r2 = length (groups L df) \<and>
           length store1 = length store + created r1 \<and>
           length store2 = length store1 \<and>
           uniq_attendance_email_date store1 \<and> uniq_attendance_email_date store2"
proof -
  let ?G = "groups L df"
  from upload_run [OF norm clash uniq, of users] obtain r1 store1 where
    run1: "upload_attendance L users store df = (Inr r1, store1)"
    and c1: "created r1 = length (filter (is_new store) ?G)"
    and u1: "updated r1 = length (filter (\<lambda>x. \<not> is_new store x) ?G)"
    and p1: "processed_pairs r1 = length ?G"
    and post1: "upsert_post users ?G store store1"
    by blast
  have total: "created r1 + updated r1 = length ?G"
    unfolding c1 u1 by (rule sum_length_filter_compl)
  have fresh: "created r1 = length ?G \<and> updated r1 = 0"
    if f: "\<forall>r \<in> set ?G. stored store (fst r) (fst (snd r)) = []"
  proof -
    have new: "is_new store r" if "r \<in> set ?G" for r
      using f that groups_lower [OF that] by (simp add: is_new_def)
    have "filter (is_new store) ?G = ?G"
      using new by (simp add: filter_id_conv)
    moreover have "filter (\<lambda>x. \<not> is_new store x) ?G = []"
      using new by (simp add: filter_empty_conv)
    ultimately show ?thesis
      using c1 u1 by simp
  qed
  have uniq1: "uniq_attendance_email_date store1"
    using post1 by (rule upsert_post_uniq)
  have len1: "length store1 = length store + created r1"
    using upsert_post_length [OF post1] c1 by simp
  from upload_run [OF norm clash uniq1, of users] obtain r2 store2 where
    run2: "upload_attendance L users store1 df = (Inr r2, store2)"
    and c2: "created r2 = length (filter (is_new store1) ?G)"
    and u2: "updated r2 = length (filter (\<lambda>x. \<not> is_new store1 x) ?G)"
    and p2: "processed_pairs r2 = length ?G"
    and post2: "upsert_post users ?G store1 store2"
    by blast
  have old: "\<not> is_new store1 r" if "r \<in> set ?G" for r
    using upsert_post_written [OF post1 that] by (auto simp: is_new_def)
  have none_new: "filter (is_new store1) ?G = []"
    using old by (simp add: filter_empty_conv)
  have all_old: "filter (\<lambda>x. \<not> is_new store1 x) ?G = ?G"
    using old by (simp add: filter_id_conv)
  have uniq2: "uniq_attendance_email_date store2"
    using post2 by (rule upsert_post_uniq)
  have len2: "length store2 = length store1"
    using upsert_post_length [OF post2] none_new by simp
  show ?thesis
    using run1 run2 c2 u2 p1 p2 total fresh len1 len2 uniq1 uniq2 none_new all_old
    by (intro exI [of _ r1] exI [of _ store1] exI [of _ r2] exI [of _ store2]) simp
qed

subsection \<open>Facts about the time cascade and the scenario\<close>

lemma loc_fill_map:
  "loc_fill (map g ss) ss p = map (\<lambda>s. case g s of None \<Rightarrow> p s | Some v \<Rightarrow> Some v) ss"
  unfolding loc_fill_def by (induction ss) simp_all

lemma loc_fill_guard:
  "(if any_na (map g ss) then loc_fill (map g ss) ss p else map g ss) = loc_fill (map g ss) ss p"
proof (cases "any_na (map g ss)")
  case True
  then show ?thesis by simp
next
  case False
  then have "\<forall>s \<in> set ss. g s \<noteq> None"
    by (force simp: any_na_def list_ex_iff)
  then have "map (\<lambda>s. case g s of None \<Rightarrow> p s | Some v \<Rightarrow> Some v) ss = map g ss"
    by (intro map_cong) (auto split: option.splits)
  then show ?thesis
    using False by (simp add: loc_fill_map)
qed

lemma loc_fill_guard2:
  "(if any_na (map g ss) then loc_fill (loc_fill (map g ss) ss p) ss q else map g ss)
     = loc_fill (loc_fill (map g ss) ss p) ss q"
proof (cases "any_na (map g ss)")
  case True
  then show ?thesis by simp
next
  case False
  then have "\<forall>s \<in> set ss. g s \<noteq> None"
    by (force simp: any_na_def list_ex_iff)
  then have "map (\<lambda>s. case g s of None \<Rightarrow> r s | Some v \<Rightarrow> Some v) ss = map g ss" for r
    by (intro map_cong) (auto split: option.splits)
  then show ?thesis
    using False by (simp add: loc_fill_map)
qed

lemma parse_time_cascade:
  assumes "to_datetime \<lparr>dayfirst = True, infer_datetime_format = True\<rparr> (map Text (to_s_str col)) = Inr f"
  shows "parse_time to_datetime col = Inr (map (\<lambda>s. map_option dt_time (cascade f s)) (to_s_str col))"
proof -
  define ss where "ss = to_s_str col"
  define g0 where "g0 = (\<lambda>s. f (Text s))"
  define g1 where "g1 = (\<lambda>s. (case g0 s of None \<Rightarrow> strptime ''%d/%m/%Y %H:%M:%S'' s | Some v \<Rightarrow> Some v))"
  define g2 where "g2 = (\<lambda>s. (case g1 s of None \<Rightarrow> strptime ''%m/%d/%Y %H:%M:%S'' s | Some v \<Rightarrow> Some v))"
  define g3 where "g3 = (\<lambda>s. (case g2 s of None \<Rightarrow> strptime ''%H:%M:%S'' s | Some v \<Rightarrow> Some v))"
  define g4 where "g4 = (\<lambda>s. (case g3 s of None \<Rightarrow> strptime ''%H:%M'' s | Some v \<Rightarrow> Some v))"
  define g5 where "g5 = (\<lambda>s. (case g4 s of None \<Rightarrow> excel_serial s | Some v \<Rightarrow> Some v))"
  have a: "to_datetime \<lparr>dayfirst = True, infer_datetime_format = True\<rparr> (map Text ss) = Inr f"
    using assms by (simp add: ss_def)
  have t0: "map (\<lambda>s. f (Text s)) ss = map g0 ss"
    by (simp add: g0_def)
  have t1: "(if any_na (map g0 ss) then loc_fill (map g0 ss) ss (strptime ''%d/%m/%Y %H:%M:%S'')
             else map g0 ss) = map g1 ss"
    by (simp only: loc_fill_guard) (simp only: loc_fill_map g1_def)
  have t2: "(if any_na (map g1 ss) then loc_fill (map g1 ss) ss (strptime ''%m/%d/%Y %H:%M:%S'')
             else map g1 ss) = map g2 ss"
    by (simp only: loc_fill_guard) (simp only: loc_fill_map g2_def)
  have t3: "(if any_na (map g2 ss)
             then loc_fill (loc_fill (map g2 ss) ss (strptime ''%H:%M:%S'')) ss (strptime ''%H:%M'')
             else map g2 ss) = map g4 ss"
    by (simp only: loc_fill_guard2) (simp only: loc_fill_map g3_def g4_def)
  have t4: "(if any_na (map g4 ss) then loc_fill (map g4 ss) ss excel_serial else map g4 ss)
            = map g5 ss"
    by (simp only: loc_fill_guard) (simp only: loc_fill_map g5_def)
  have c: "cascade f s = g5 s" for s
    by (simp add: cascade_def g5_def g4_def g3_def g2_def g1_def g0_def split: option.splits)
  have "parse_time to_datetime col = Inr (map (map_option dt_time) (map g5 ss))"
    unfolding parse_time_def Let_def ss_def [symmetric] a sum.case t0 t1 t2 t3 t4 ..
  then show ?thesis
    by (simp add: c ss_def comp_def)
qed

lemma scenario_columns:
  "normalize_columns (columns scenario) = [''email'', ''date'', ''time'']"
  "col_date [''email'', ''date'', ''time''] = Some ''date''"
  "col_time [''email'', ''date'', ''time''] = Some ''time''"
  "col_email [''email'', ''date'', ''time''] = Some ''email''"
  "\<not> label_clash [''email'', ''date'', ''time'']"
  by code_simp+

lemma scenario_series:
  "series (scenario\<lparr>columns := [''email'', ''date'', ''time'']\<rparr>) ''date''
     = Some [Text ''01/05/2024'', Text ''01/05/2024'', Text ''01/05/2024'']"
  "series (scenario\<lparr>columns := [''email'', ''date'', ''time'']\<rparr>) ''time''
     = Some [Text ''09:00'', Text ''08:30'', Text ''bad'']"
  "series (scenario\<lparr>columns := [''email'', ''date'', ''time'']\<rparr>) ''email''
     = Some [Text ''a@x.com'', Text ''a@x.com'', Text ''b@y.com'']"
  by code_simp+

lemma scenario_cells:
  "parse_email [Text ''a@x.com'', Text ''a@x.com'', Text ''b@y.com'']
     = [''a@x.com'', ''a@x.com'', ''b@y.com'']"
  "to_s_str [Text ''09:00'', Text ''08:30'', Text ''bad''] = [''09:00'', ''08:30'', ''bad'']"
  by code_simp+

lemma scenario_fallbacks:
  "map_option dt_time (cascade (\<lambda>c. None) ''09:00'') = Some (9, 0, 0, 0)"
  "map_option dt_time (cascade (\<lambda>c. None) ''08:30'') = Some (8, 30, 0, 0)"
  "cascade (\<lambda>c. None) ''bad'' = None"
  by code_simp+

lemma cascade_first: "cascade f s = (case f (Text s) of None \<Rightarrow> cascade (\<lambda>c. None) s | Some v \<Rightarrow> Some v)"
  by (simp add: cascade_def split: option.splits)

lemma scenario_aggregate:
  "df_clean [(''a@x.com'', Some (2024, 5, 1), Some (9, 0, 0, 0)),
             (''a@x.com'', Some (2024, 5, 1), Some (8, 30, 0, 0)),
             (''b@y.com'', Some (2024, 5, 1), None)]
     = [(''a@x.com'', (2024, 5, 1), (9, 0, 0, 0)), (''a@x.com'', (2024, 5, 1), (8, 30, 0, 0))]"
  "earliest [(''a@x.com'', (2024, 5, 1), (9, 0, 0, 0)), (''a@x.com'', (2024, 5, 1), (8, 30, 0, 0))]
     = [(''a@x.com'', (2024, 5, 1), (8, 30, 0, 0))]"
  "count_pairs_any_time [(''a@x.com'', Some (2024, 5, 1), Some (9, 0, 0, 0)),
             (''a@x.com'', Some (2024, 5, 1), Some (8, 30, 0, 0)),
             (''b@y.com'', Some (2024, 5, 1), None)] = 2"
  "count_null_time [(''a@x.com'', Some (2024, 5, 1), Some (9, 0, 0, 0)),
             (''a@x.com'', Some (2024, 5, 1), Some (8, 30, 0, 0)),
             (''b@y.com'', Some (2024, 5, 1), None)] = 1"
  "str_lower ''a@x.com'' = ''a@x.com''"
  by code_simp+

text \<open>
  C1. The end-to-end scenario: three rows, (a@x.com, 01/05/2024, 09:00),
  (a@x.com, 01/05/2024, 08:30) and (b@y.com, 01/05/2024, bad), uploaded against an
  empty table. Whenever the generic parse reads 01/05/2024 day-first as 2024-05-01, does
  not misread the two clock times (it may leave them to the fixed formats) and gives no
  value for "bad", the view reports 3 rows, 2 distinct pairs ignoring time, 1 row with an
  unparseable time, 1 processed pair, 1 created and 0 updated, and the table holds the one
  row a@x.com / 2024-05-01 with check-in 08:30 and status Present.
\<close>

theorem C1_end_to_end:
  assumes d: "to_datetime \<lparr>dayfirst = True, infer_datetime_format = False\<rparr>
                [Text ''01/05/2024'', Text ''01/05/2024'', Text ''01/05/2024''] = Inr fd"
    and d1: "map_option dt_date (fd (Text ''01/05/2024'')) = Some (2024, 5, 1)"
    and t: "to_datetime \<lparr>dayfirst = True, infer_datetime_format = True\<rparr>
                [Text ''09:00'', Text ''08:30'', Text ''bad''] = Inr ft"
    and t1: "ft (Text ''09:00'') = None \<or> map_option dt_time (ft (Text ''09:00'')) = Some (9, 0, 0, 0)"
    and t2: "ft (Text ''08:30'') = None \<or> map_option dt_time (ft (Text ''08:30'')) = Some (8, 30, 0, 0)"
    and t3: "ft (Text ''bad'') = None"
  shows "upload_attendance to_datetime users [] scenario =
           (Inr \<lparr>used_date = ''date'', used_time = ''time'', used_email = ''email'',
                  total_rows = 3, total_pairs_any_time = 2, null_time_rows = 1,
                  processed_pairs = 1, created = 1, updated = 0\<rparr>,
            [\<lparr>employee = find_user users ''a@x.com'', employee_email = Some ''a@x.com'',
               date = (2024, 5, 1), check_in_time = Some (8, 30, 0, 0), status = Present\<rparr>])"
proof -
  let ?ps = "[(''a@x.com'', Some (2024, 5, 1), Some (9, 0, 0, 0)),
              (''a@x.com'', Some (2024, 5, 1), Some (8, 30, 0, 0)),
              (''b@y.com'', Some (2024, 5, 1), None)]"
  have pd: "parse_date to_datetime [Text ''01/05/2024'', Text ''01/05/2024'', Text ''01/05/2024'']
              = Inr [Some (2024, 5, 1), Some (2024, 5, 1), Some (2024, 5, 1)]"
    using d d1 by (simp add: parse_date_def)
  have c1: "map_option dt_time (cascade ft ''09:00'') = Some (9, 0, 0, 0)"
    using t1 scenario_fallbacks(1) by (auto simp: cascade_first [of ft])
  have c2: "map_option dt_time (cascade ft ''08:30'') = Some (8, 30, 0, 0)"
    using t2 scenario_fallbacks(2) by (auto simp: cascade_first [of ft])
  have c3: "cascade ft ''bad'' = None"
    using t3 scenario_fallbacks(3) by (simp add: cascade_first [of ft])
  have pt: "parse_time to_datetime [Text ''09:00'', Text ''08:30'', Text ''bad'']
              = Inr [Some (9, 0, 0, 0), Some (8, 30, 0, 0), None]"
    using parse_time_cascade [of to_datetime "[Text ''09:00'', Text ''08:30'', Text ''bad'']" ft] t
    by (simp add: scenario_cells c1 c2 c3)
  have norm: "normalize to_datetime scenario = Inr ((''date'', ''time'', ''email''), ?ps)"
    by (simp add: normalize_def Let_def scenario_columns scenario_series scenario_cells pd pt)
  have clash: "\<not> label_clash (normalize_columns (columns scenario))"
    by (simp add: scenario_columns)
  have g: "groups to_datetime scenario = [(''a@x.com'', (2024, 5, 1), (8, 30, 0, 0))]"
    using norm by (simp add: groups_def scenario_aggregate)
  have "update_or_create [] ''a@x.com'' (2024, 5, 1) (8, 30, 0, 0) (find_user users ''a@x.com'')
          = Inr ([] @ [\<lparr>employee = find_user users ''a@x.com'', employee_email = Some ''a@x.com'',
                         date = (2024, 5, 1), check_in_time = Some (8, 30, 0, 0),
                         status = Present\<rparr>], True)"
    by (rule uoc_create [OF _ keeps_email_find_user]) (simp add: stored_def)
  then have up: "upsert users [(''a@x.com'', (2024, 5, 1), (8, 30, 0, 0))] [] 0 0
          = (Inr (1, 0), [\<lparr>employee = find_user users ''a@x.com'', employee_email = Some ''a@x.com'',
                         date = (2024, 5, 1), check_in_time = Some (8, 30, 0, 0),
                         status = Present\<rparr>])"
    by (simp add: scenario_aggregate Let_def)
  have rows: "length (rows scenario) = 3"
    by (simp add: scenario_def)
  show ?thesis
    unfolding upload_reaches_loop [OF norm clash] g up
    by (simp add: scenario_aggregate rows)
qed

subsection \<open>The scenario against the reference reading, and the remaining facts\<close>

lemma spec_reads_scenario:
  "\<exists>fd. spec_to_datetime \<lparr>dayfirst = True, infer_datetime_format = False\<rparr>
           [Text ''01/05/2024'', Text ''01/05/2024'', Text ''01/05/2024''] = Inr fd \<and>
         map_option dt_date (fd (Text ''01/05/2024'')) = Some (2024, 5, 1)"
  "\<exists>ft. spec_to_datetime \<lparr>dayfirst = True, infer_datetime_format = True\<rparr>
           [Text ''09:00'', Text ''08:30'', Text ''bad''] = Inr ft \<and>
         ft (Text ''09:00'') = None \<and> ft (Text ''08:30'') = None \<and> ft (Text ''bad'') = None"
proof -
  have a: "first_some [strptime ''%d/%m/%Y'' ''01/05/2024'', strptime ''%m/%d/%Y'' ''01/05/2024'',
             strptime ''%d/%m/%Y %H:%M:%S'' ''01/05/2024'',
             strptime ''%m/%d/%Y %H:%M:%S'' ''01/05/2024''] = Some 1714521600000000000"
    by code_simp
  have b: "dt_date 1714521600000000000 = (2024, 5, 1)"
    by code_simp
  show "\<exists>fd. spec_to_datetime \<lparr>dayfirst = True, infer_datetime_format = False\<rparr>
           [Text ''01/05/2024'', Text ''01/05/2024'', Text ''01/05/2024''] = Inr fd \<and>
         map_option dt_date (fd (Text ''01/05/2024'')) = Some (2024, 5, 1)"
    by (simp add: spec_to_datetime_def a b del: first_some.simps)
  have c: "first_some [strptime ''%d/%m/%Y'' s, strptime ''%m/%d/%Y'' s,
             strptime ''%d/%m/%Y %H:%M:%S'' s, strptime ''%m/%d/%Y %H:%M:%S'' s] = None"
    if "s = ''09:00'' \<or> s = ''08:30'' \<or> s = ''bad''" for s
    using that by (elim disjE) (simp_all only:, code_simp+)
  show "\<exists>ft. spec_to_datetime \<lparr>dayfirst = True, infer_datetime_format = True\<rparr>
           [Text ''09:00'', Text ''08:30'', Text ''bad''] = Inr ft \<and>
         ft (Text ''09:00'') = None \<and> ft (Text ''08:30'') = None \<and> ft (Text ''bad'') = None"
    by (simp add: spec_to_datetime_def c del: first_some.simps)
qed

theorem C1_end_to_end_witness:
  "upload_attendance spec_to_datetime [] [] scenario =
           (Inr \<lparr>used_date = ''date'', used_time = ''time'', used_email = ''email'',
                  total_rows = 3, total_pairs_any_time = 2, null_time_rows = 1,
                  processed_pairs = 1, created = 1, updated = 0\<rparr>,
            [\<lparr>employee = None, employee_email = Some ''a@x.com'',
               date = (2024, 5, 1), check_in_time = Some (8, 30, 0, 0), status = Present\<rparr>])"
proof -
  from spec_reads_scenario(1) obtain fd where
    d: "spec_to_datetime \<lparr>dayfirst = True, infer_datetime_format = False\<rparr>
           [Text ''01/05/2024'', Text ''01/05/2024'', Text ''01/05/2024''] = Inr fd"
    and d1: "map_option dt_date (fd (Text ''01/05/2024'')) = Some (2024, 5, 1)"
    by blast
  from spec_reads_scenario(2) obtain ft where
    t: "spec_to_datetime \<lparr>dayfirst = True, infer_datetime_format = True\<rparr>
           [Text ''09:00'', Text ''08:30'', Text ''bad''] = Inr ft"
    and t1: "ft (Text ''09:00'') = None" and t2: "ft (Text ''08:30'') = None"
    and t3: "ft (Text ''bad'') = None"
    by blast
  show ?thesis
    using C1_end_to_end [OF d d1 t _ _ t3, of "[]"] t1 t2 by (simp add: find_user_def)
qed

lemma scenario_normalize:
  "normalize spec_to_datetime scenario =
     Inr ((''date'', ''time'', ''email''),
          [(''a@x.com'', Some (2024, 5, 1), Some (9, 0, 0, 0)),
           (''a@x.com'', Some (2024, 5, 1), Some (8, 30, 0, 0)),
           (''b@y.com'', Some (2024, 5, 1), None)])"
  by code_simp

lemma scenario_no_clash: "\<not> label_clash (normalize_columns (columns scenario))"
  by code_simp

lemma scenario_groups:
  "groups spec_to_datetime scenario = [(''a@x.com'', (2024, 5, 1), (8, 30, 0, 0))]"
  by code_simp

theorem C3_idempotent_upsert_witness:
  "\<exists>r1 store1 r2 store2.
     upload_attendance spec_to_datetime [] [] scenario = (Inr r1, store1) \<and>
     upload_attendance spec_to_datetime [] store1 scenario = (Inr r2, store2) \<and>
     created r1 = 1 \<and> updated r1 = 0 \<and> created r2 = 0 \<and> updated r2 = 1 \<and>
     length store1 = 1 \<and> length store2 = 1"
proof -
  have uniq: "uniq_attendance_email_date []"
    by (simp add: uniq_attendance_email_date_def)
  have fresh: "\<forall>r \<in> set (groups spec_to_datetime scenario). stored [] (fst r) (fst (snd r)) = []"
    by (simp add: stored_def)
  from C3_idempotent_upsert [OF scenario_normalize scenario_no_clash uniq, of "[]"] fresh
  obtain r1 store1 r2 store2 where
    "upload_attendance spec_to_datetime [] [] scenario = (Inr r1, store1)"
    "upload_attendance spec_to_datetime [] store1 scenario = (Inr r2, store2)"
    "created r1 = 1" "updated r1 = 0" "created r2 = 0" "updated r2 = 1"
    "length store1 = 1" "length store2 = 1"
    unfolding scenario_groups by auto
  then show ?thesis by blast
qed

text \<open>
  C2. For every list of cleaned rows, \<open>earliest\<close> has one row for each (email, date)
  key of the input: its keys are distinct and are exactly the keys of the input, and the
  time of each of its rows is the least time among the input rows of that key. The two
  rows a@x.com / 2024-05-01 at 09:10 and at 08:55 give the single row with 08:55.
\<close>

theorem C2_earliest_per_group:
  "distinct (map group_key (earliest rs)) \<and>
   set (map group_key (earliest rs)) = set (map group_key rs) \<and>
   (\<forall>r \<in> set (earliest rs). snd (snd r) = Min {t. (fst r, fst (snd r), t) \<in> set rs}) \<and>
   earliest [(''a@x.com'', (2024, 5, 1), (9, 10, 0, 0)), (''a@x.com'', (2024, 5, 1), (8, 55, 0, 0))]
     = [(''a@x.com'', (2024, 5, 1), (8, 55, 0, 0))]"
  using distinct_earliest_keys set_earliest_keys earliest_min(1) earliest_example by blast

theorem C2_earliest_per_group_witness:
  "Min {t. (''a@x.com'', (2024, 5, 1), t)
            \<in> set ([(''a@x.com'', (2024, 5, 1), (9, 10, 0, 0)),
                     (''a@x.com'', (2024, 5, 1), (8, 55, 0, 0))] :: clean_row list)}
     = (8, 55, 0, 0)"
proof -
  let ?rs = "[(''a@x.com'', (2024, 5, 1), (9, 10, 0, 0)), (''a@x.com'', (2024, 5, 1), (8, 55, 0, 0))]
               :: clean_row list"
  from C2_earliest_per_group [of ?rs]
  have all: "\<forall>r \<in> set (earliest ?rs). snd (snd r) = Min {t. (fst r, fst (snd r), t) \<in> set ?rs}"
    and ex: "earliest ?rs = [(''a@x.com'', (2024, 5, 1), (8, 55, 0, 0))]"
    by blast+
  have "(''a@x.com'', (2024, 5, 1), (8, 55, 0, 0)) \<in> set (earliest ?rs)"
    unfolding ex by simp
  from all [rule_format, OF this] show ?thesis
    by (simp only: fst_conv snd_conv)
qed

lemma missing_iff:
  "missing cols \<noteq> [] \<longleftrightarrow> col_date cols = None \<or> col_time cols = None \<or> col_email cols = None"
  by (simp add: missing_def)

text \<open>
  C5. When one of the date, time and email columns cannot be resolved from the normalised
  headers, the view returns the missing-columns error. Its labels are exactly those of
  Date, Time, Email whose column is unresolved, and there is at least one. The outcome
  is the same for every content of the rows, every parser and every list of accounts, so
  no row is processed, and the table is returned as it was.
\<close>

theorem C5_missing_columns_abort:
  assumes "col_date (normalize_columns (columns df)) = None \<or>
           col_time (normalize_columns (columns df)) = None \<or>
           col_email (normalize_columns (columns df)) = None"
  shows "upload_attendance to_datetime users store df
           = (Inl (MissingColumns (missing (normalize_columns (columns df)))), store) \<and>
         upload_attendance to_datetime users store df
           = upload_attendance to_datetime' users' store (df\<lparr>rows := rs\<rparr>) \<and>
         missing (normalize_columns (columns df)) \<noteq> [] \<and>
         (''Date'' \<in> set (missing (normalize_columns (columns df)))
            \<longleftrightarrow> col_date (normalize_columns (columns df)) = None) \<and>
         (''Time'' \<in> set (missing (normalize_columns (columns df)))
            \<longleftrightarrow> col_time (normalize_columns (columns df)) = None) \<and>
         (''Email'' \<in> set (missing (normalize_columns (columns df)))
            \<longleftrightarrow> col_email (normalize_columns (columns df)) = None) \<and>
         set (missing (normalize_columns (columns df))) \<subseteq> {''Date'', ''Time'', ''Email''}"
proof -
  have n: "normalize L d = Inl (MissingColumns (missing (normalize_columns (columns d))))"
    if "col_date (normalize_columns (columns d)) = None \<or>
        col_time (normalize_columns (columns d)) = None \<or>
        col_email (normalize_columns (columns d)) = None" for L d
    using that by (auto simp: normalize_def Let_def split: option.splits)
  have u: "upload_attendance L us store d
             = (Inl (MissingColumns (missing (normalize_columns (columns d)))), store)"
    if "col_date (normalize_columns (columns d)) = None \<or>
        col_time (normalize_columns (columns d)) = None \<or>
        col_email (normalize_columns (columns d)) = None" for L us d
    using n [OF that] by (simp add: upload_attendance_def)
  have "upload_attendance to_datetime' users' store (df\<lparr>rows := rs\<rparr>)
          = (Inl (MissingColumns (missing (normalize_columns (columns df)))), store)"
    using u [of "df\<lparr>rows := rs\<rparr>" to_datetime' users'] assms by simp
  then show ?thesis
    using u [OF assms] assms by (auto simp: missing_def)
qed

lemma report_date_columns:
  "normalize_columns (columns report_date_upload) = [''email'', ''report date'', ''time'']"
  "col_date [''email'', ''report date'', ''time''] = None"
  "missing [''email'', ''report date'', ''time''] = [''Date'']"
  by code_simp+

theorem C5_missing_columns_abort_witness:
  "upload_attendance spec_to_datetime [] earlier_store report_date_upload
     = (Inl (MissingColumns [''Date'']), earlier_store)"
proof -
  have "col_date (normalize_columns (columns report_date_upload)) = None \<or>
        col_time (normalize_columns (columns report_date_upload)) = None \<or>
        col_email (normalize_columns (columns report_date_upload)) = None"
    by (simp add: report_date_columns)
  from C5_missing_columns_abort [OF this, of spec_to_datetime "[]" earlier_store]
  show ?thesis
    by (simp add: report_date_columns)
qed

lemma length_to_s_str: "length (to_s_str col) = length col"
  by (simp add: to_s_str_def)

lemma to_s_str_nth:
  "i < length col \<Longrightarrow> to_s_str col ! i = str_strip (replace_nbsp (astype_str (col ! i)))"
  by (simp add: to_s_str_def)

lemma example_cells:
  "str_strip (replace_nbsp (astype_str (Text ''9:15''))) = ''9:15''"
  "str_strip (replace_nbsp (astype_str (Number ''45000.5''))) = ''45000.5''"
  "map_option dt_time (cascade (\<lambda>c. None) ''9:15'') = Some (9, 15, 0, 0)"
  "map_option dt_time (cascade (\<lambda>c. None) ''45000.5'') = Some (12, 0, 0, 0)"
  "map_option (\<lambda>v. (dt_date v, dt_time v)) (excel_serial ''45000.5'')
     = Some ((2023, 3, 15), (12, 0, 0, 0))"
  "map_option (\<lambda>v. (dt_date v, dt_time v)) (excel_serial ''0'')
     = Some ((1899, 12, 30), (0, 0, 0, 0))"
  "strptime ''%d/%m/%Y %H:%M:%S'' ''9:15'' = None"
  "strptime ''%m/%d/%Y %H:%M:%S'' ''9:15'' = None"
  "strptime ''%H:%M:%S'' ''9:15'' = None"
  "map_option dt_time (strptime ''%H:%M'' ''9:15'') = Some (9, 15, 0, 0)"
  by code_simp+

text \<open>
  C6. When the generic day-first parse of the time column returns \<open>f\<close>, the time of every
  cell is the time of day of the first value in the ordered list: the value of \<open>f\<close>, then
  the formats day/month/year h:m:s, month/day/year h:m:s, h:m:s and h:m, then the
  spreadsheet serial. A cell "9:15" that the generic parse leaves unparsed, or reads as
  a quarter past nine, gets 09:15:00 (the format h:m reads it so). A numeric cell 45000.5
  that the generic parse leaves unparsed gets 12:00:00: the serial 45000.5 is 2023-03-15
  12:00:00, counted from 1899-12-30, which is serial 0.
\<close>

theorem C6_time_cascade:
  assumes "to_datetime \<lparr>dayfirst = True, infer_datetime_format = True\<rparr>
             (map Text (to_s_str col)) = Inr f"
  shows "\<exists>tms. parse_time to_datetime col = Inr tms \<and> length tms = length col \<and>
           (\<forall>i < length col. tms ! i = map_option dt_time (cascade f (to_s_str col ! i))) \<and>
           (\<forall>i < length col.
              col ! i = Text ''9:15'' \<and>
              (f (Text ''9:15'') = None \<or> map_option dt_time (f (Text ''9:15'')) = Some (9, 15, 0, 0))
              \<longrightarrow> tms ! i = Some (9, 15, 0, 0)) \<and>
           (\<forall>i < length col.
              col ! i = Number ''45000.5'' \<and> f (Text ''45000.5'') = None
              \<longrightarrow> tms ! i = Some (12, 0, 0, 0)) \<and>
           map_option dt_time (strptime ''%H:%M'' ''9:15'') = Some (9, 15, 0, 0) \<and>
           map_option (\<lambda>v. (dt_date v, dt_time v)) (excel_serial ''45000.5'')
             = Some ((2023, 3, 15), (12, 0, 0, 0)) \<and>
           map_option (\<lambda>v. (dt_date v, dt_time v)) (excel_serial ''0'')
             = Some ((1899, 12, 30), (0, 0, 0, 0))"
proof -
  let ?tms = "map (\<lambda>s. map_option dt_time (cascade f s)) (to_s_str col)"
  have run: "parse_time to_datetime col = Inr ?tms"
    using assms by (rule parse_time_cascade)
  have nth: "?tms ! i = map_option dt_time (cascade f (to_s_str col ! i))" if "i < length col" for i
    using that by (simp add: length_to_s_str)
  have a: "?tms ! i = Some (9, 15, 0, 0)"
    if "i < length col" "col ! i = Text ''9:15''"
      "f (Text ''9:15'') = None \<or> map_option dt_time (f (Text ''9:15'')) = Some (9, 15, 0, 0)" for i
  proof -
    have "to_s_str col ! i = ''9:15''"
      using that(1,2) by (simp add: to_s_str_nth example_cells)
    then have "?tms ! i = map_option dt_time (cascade f ''9:15'')"
      using nth [OF that(1)] by simp
    then show ?thesis
      using that(3) example_cells(3) by (auto simp: cascade_first [of f])
  qed
  have b: "?tms ! i = Some (12, 0, 0, 0)"
    if "i < length col" "col ! i = Number ''45000.5''" "f (Text ''45000.5'') = None" for i
  proof -
    have "to_s_str col ! i = ''45000.5''"
      using that(1,2) by (simp add: to_s_str_nth example_cells)
    then have "?tms ! i = map_option dt_time (cascade f ''45000.5'')"
      using nth [OF that(1)] by simp
    then show ?thesis
      using that(3) example_cells(4) by (simp add: cascade_first [of f])
  qed
  show ?thesis
    using run nth a b example_cells(5,6,10) by (intro exI [of _ ?tms]) (simp add: length_to_s_str)
qed

theorem C6_time_cascade_witness:
  "parse_time spec_to_datetime [Text ''9:15'', Number ''45000.5'']
     = Inr [Some (9, 15, 0, 0), Some (12, 0, 0, 0)]"
proof -
  let ?col = "[Text ''9:15'', Number ''45000.5'']"
  have s: "to_s_str ?col = [''9:15'', ''45000.5'']"
    by code_simp
  have n: "first_some [strptime ''%d/%m/%Y'' s, strptime ''%m/%d/%Y'' s,
             strptime ''%d/%m/%Y %H:%M:%S'' s, strptime ''%m/%d/%Y %H:%M:%S'' s] = None"
    if "s = ''9:15'' \<or> s = ''45000.5''" for s
    using that by (elim disjE) (simp_all only:, code_simp+)
  have "\<exists>f. spec_to_datetime \<lparr>dayfirst = True, infer_datetime_format = True\<rparr>
                (map Text (to_s_str ?col)) = Inr f \<and>
             f (Text ''9:15'') = None \<and> f (Text ''45000.5'') = None"
    by (simp add: spec_to_datetime_def n del: first_some.simps)
  then obtain f where
    call: "spec_to_datetime \<lparr>dayfirst = True, infer_datetime_format = True\<rparr>
                (map Text (to_s_str ?col)) = Inr f"
    and f1: "f (Text ''9:15'') = None" and f2: "f (Text ''45000.5'') = None"
    by blast
  from C6_time_cascade [of spec_to_datetime ?col f, OF call] obtain tms where
    run: "parse_time spec_to_datetime ?col = Inr tms" and len: "length tms = length ?col"
    and a: "\<forall>i < length ?col. ?col ! i = Text ''9:15'' \<and>
              (f (Text ''9:15'') = None \<or> map_option dt_time (f (Text ''9:15'')) = Some (9, 15, 0, 0))
              \<longrightarrow> tms ! i = Some (9, 15, 0, 0)"
    and b: "\<forall>i < length ?col. ?col ! i = Number ''45000.5'' \<and> f (Text ''45000.5'') = None
              \<longrightarrow> tms ! i = Some (12, 0, 0, 0)"
    by blast
  have "tms ! 0 = Some (9, 15, 0, 0)"
    using a [rule_format, of 0] f1 by simp
  moreover have "tms ! 1 = Some (12, 0, 0, 0)"
    using b [rule_format, of 1] f2 by simp
  ultimately have "tms = [Some (9, 15, 0, 0), Some (12, 0, 0, 0)]"
    using len by (cases tms; cases "tl tms") auto
  then show ?thesis using run by simp
qed

lemma spec_date_cell:
  assumes "strptime ''%d/%m/%Y'' s = Some v"
  shows "\<exists>f. spec_to_datetime \<lparr>dayfirst = True, infer_datetime_format = False\<rparr> col = Inr f \<and>
             f (Text s) = Some v"
  using assms by (simp add: spec_to_datetime_def)

lemma day_first_example:
  "parse_date spec_to_datetime [Text ''03/04/2024''] = Inr [Some (2024, 4, 3)]"
  "map_option dt_date (strptime ''%d/%m/%Y'' ''03/04/2024'') = Some (2024, 4, 3)"
  "map_option dt_date (strptime ''%m/%d/%Y'' ''03/04/2024'') = Some (2024, 3, 4)"
  by code_simp+

text \<open>
  C7. With the reference reading of the generic parse, the date cell 03/04/2024 is the
  3rd of April 2024 (read month-first it would be the 4th of March), and in every column
  every cell that has a day-first reading day/month/year gets the date of that reading,
  whether or not it has a month-first reading as well.
\<close>

theorem C7_day_first_date:
  "parse_date spec_to_datetime [Text ''03/04/2024''] = Inr [Some (2024, 4, 3)] \<and>
   map_option dt_date (strptime ''%m/%d/%Y'' ''03/04/2024'') = Some (2024, 3, 4) \<and>
   (\<forall>i < length col. \<forall>s v.
      col ! i = Text s \<and> strptime ''%d/%m/%Y'' s = Some v \<longrightarrow>
      (\<exists>ds. parse_date spec_to_datetime col = Inr ds \<and> length ds = length col \<and>
            ds ! i = Some (dt_date v)))"
proof -
  have "\<exists>ds. parse_date spec_to_datetime col = Inr ds \<and> length ds = length col \<and>
            ds ! i = Some (dt_date v)"
    if "i < length col" "col ! i = Text s" "strptime ''%d/%m/%Y'' s = Some v" for i s v
  proof -
    from spec_date_cell [OF that(3), of col] obtain f where
      f: "spec_to_datetime \<lparr>dayfirst = True, infer_datetime_format = False\<rparr> col = Inr f"
      and fs: "f (Text s) = Some v"
      by blast
    show ?thesis
      using f fs that(1,2) by (simp add: parse_date_def)
  qed
  then show ?thesis
    using day_first_example(1,3) by blast
qed

theorem C7_day_first_date_witness:
  "\<exists>ds. parse_date spec_to_datetime [Text ''13/02/2024'', Text ''03/04/2024''] = Inr ds \<and>
        length ds = 2 \<and> ds ! 1 = Some (2024, 4, 3)"
proof -
  have v: "strptime ''%d/%m/%Y'' ''03/04/2024'' = Some 1712102400000000000"
    by code_simp
  have d: "dt_date 1712102400000000000 = (2024, 4, 3)"
    by code_simp
  from C7_day_first_date [of "[Text ''13/02/2024'', Text ''03/04/2024'']"]
  have "\<forall>i < length [Text ''13/02/2024'', Text ''03/04/2024'']. \<forall>s v.
          [Text ''13/02/2024'', Text ''03/04/2024''] ! i = Text s \<and>
          strptime ''%d/%m/%Y'' s = Some v \<longrightarrow>
          (\<exists>ds. parse_date spec_to_datetime [Text ''13/02/2024'', Text ''03/04/2024''] = Inr ds \<and>
                length ds = length [Text ''13/02/2024'', Text ''03/04/2024''] \<and>
                ds ! i = Some (dt_date v))"
    by blast
  from this [rule_format, of 1 "''03/04/2024''" 1712102400000000000] v d
  show ?thesis by (simp add: numeral_2_eq_2)
qed

text \<open>
  C8, at an identity cell of blanks. Stringified, trimmed and lower-cased the cell is the
  empty string, which is a value and not a missing one: \<open>dropna\<close> keeps the row, and the
  view creates a record whose email is empty.
\<close>

theorem C8_blank_identity_kept:
  "parse_email [Text ''   ''] = [[]] \<and>
   df_clean [([], Some (2024, 5, 1), Some (9, 0, 0, 0))] = [([], (2024, 5, 1), (9, 0, 0, 0))] \<and>
   upload_attendance spec_to_datetime [] [] blank_identity_upload =
     (Inr \<lparr>used_date = ''date'', used_time = ''time'', used_email = ''email'',
            total_rows = 1, total_pairs_any_time = 1, null_time_rows = 0,
            processed_pairs = 1, created = 1, updated = 0\<rparr>,
      [\<lparr>employee = None, employee_email = Some [], date = (2024, 5, 1),
         check_in_time = Some (9, 0, 0, 0), status = Present\<rparr>])"
  by code_simp

lemma save_status:
  "status (save r) = (if check_in_time r = None then Absent else Present)"
  "check_in_time (save r) = check_in_time r"
  by (auto simp: save_def Let_def split: option.splits)

lemma uoc_rows:
  assumes "update_or_create store eml d t u = Inr (store', b)" and "x \<in> set store'"
  shows "x \<in> set store \<or> (status x = Present \<and> check_in_time x = Some t)"
proof -
  have sv: "status (save r) = Present \<and> check_in_time (save r) = Some t"
    if "check_in_time r = Some t" for r
    using that by (simp add: save_status)
  show ?thesis
  proof (cases "filter (\<lambda>r. row_key r = (Some eml, d)) store")
    case Nil
    let ?obj = "save \<lparr>employee = u, employee_email = Some eml, date = d,
                     check_in_time = Some t, status = Present\<rparr>"
    from assms(1) Nil have "store' = store @ [?obj]"
      by (simp add: update_or_create_def Let_def split: if_splits)
    then have "x \<in> set store \<or> x = ?obj"
      using assms(2) by auto
    then show ?thesis
      using sv [of "\<lparr>employee = u, employee_email = Some eml, date = d,
                     check_in_time = Some t, status = Present\<rparr>"] by auto
  next
    case (Cons r rs)
    let ?obj = "save (r\<lparr>check_in_time := Some t, status := Present, employee := u\<rparr>)"
    from assms(1) Cons have "store' = map (\<lambda>x. if row_key x = (Some eml, d) then ?obj else x) store"
      by (cases rs) (simp_all add: update_or_create_def Let_def split: if_splits)
    then have "x \<in> set store \<or> x = ?obj"
      using assms(2) by auto
    then show ?thesis
      using sv [of "r\<lparr>check_in_time := Some t, status := Present, employee := u\<rparr>"] by auto
  qed
qed

lemma upsert_rows:
  "x \<in> set (snd (upsert users rws store c u)) \<Longrightarrow>
     x \<in> set store \<or> (status x = Present \<and> check_in_time x \<noteq> None)"
proof (induction rws arbitrary: store c u)
  case Nil
  then show ?case by simp
next
  case (Cons row rest)
  obtain e d t where row: "row = (e, d, t)"
    by (metis prod_cases3)
  show ?case
  proof (cases "update_or_create store (str_lower e) d t (find_user users (str_lower e))")
    case (Inl err)
    then show ?thesis using Cons.prems by (simp add: row Let_def)
  next
    case (Inr sb)
    obtain store1 b where sb: "sb = (store1, b)" by (cases sb)
    have "x \<in> set (snd (upsert users rest store1 (if b then c + 1 else c) (if b then u else u + 1)))"
      using Cons.prems Inr sb by (simp add: row Let_def split: if_splits)
    then have "x \<in> set store1 \<or> (status x = Present \<and> check_in_time x \<noteq> None)"
      by (rule Cons.IH)
    moreover have "x \<in> set store \<or> (status x = Present \<and> check_in_time x = Some t)"
      if "x \<in> set store1"
      using uoc_rows [of store "str_lower e" d t "find_user users (str_lower e)" store1 b x]
        Inr sb that by simp
    ultimately show ?thesis
      by (metis option.distinct(1))
  qed
qed

lemma upload_rows:
  "x \<in> set (snd (upload_attendance to_datetime users store df)) \<Longrightarrow>
     x \<in> set store \<or> (status x = Present \<and> check_in_time x \<noteq> None)"
proof (cases "normalize to_datetime df")
  case (Inl e)
  assume "x \<in> set (snd (upload_attendance to_datetime users store df))"
  then show ?thesis using Inl by (simp add: upload_attendance_def)
next
  case (Inr up)
  assume x: "x \<in> set (snd (upload_attendance to_datetime users store df))"
  obtain used ps where up: "up = (used, ps)" by (cases up)
  show ?thesis
  proof (cases "label_clash (normalize_columns (columns df))")
    case True
    then show ?thesis using x Inr up by (simp add: upload_attendance_def)
  next
    case False
    have "snd (upload_attendance to_datetime users store df)
            = snd (upsert users (earliest (df_clean ps)) store 0 0)"
      using Inr up False
      by (simp add: upload_attendance_def Let_def split: prod.splits sum.splits)
    then show ?thesis using x upsert_rows by metis
  qed
qed

text \<open>
  C9. After \<open>save\<close> the status of a row is Present exactly when its check-in time is
  not null, and Absent otherwise. After an upload every row of the table is either a row
  that was in the table before or a row with status Present and a check-in time: the
  upsert writes Present rows only.
\<close>

theorem C9_status_follows_check_in:
  "status (save r) = (if check_in_time (save r) = None then Absent else Present) \<and>
   (\<forall>x \<in> set (snd (upload_attendance to_datetime users store df)).
      x \<in> set store \<or> (status x = Present \<and> check_in_time x \<noteq> None))"
  using save_status [of r] upload_rows [of _ to_datetime users store df] by auto

theorem C9_status_follows_check_in_witness:
  "snd (upload_attendance spec_to_datetime [] [] scenario) \<noteq> [] \<and>
   list_all (\<lambda>x. status x = Present \<and> check_in_time x \<noteq> None)
     (snd (upload_attendance spec_to_datetime [] [] scenario))"
proof -
  have ne: "snd (upload_attendance spec_to_datetime [] [] scenario) \<noteq> []"
    by code_simp
  from C9_status_follows_check_in [of _ spec_to_datetime "[]" "[]" scenario]
  have "\<forall>x \<in> set (snd (upload_attendance spec_to_datetime [] [] scenario)).
          x \<in> set [] \<or> (status x = Present \<and> check_in_time x \<noteq> None)"
    by blast
  then show ?thesis
    using ne by (simp add: list_all_iff)
qed

lemma groups_min:
  assumes "normalize to_datetime df = Inr (used, ps)" and "g \<in> set (groups to_datetime df)"
  shows "snd (snd g) = Min {t. (fst g, fst (snd g), t) \<in> set (df_clean ps)}"
proof -
  from assms have "g \<in> set (earliest (df_clean ps))"
    by (simp add: groups_def)
  then show ?thesis by (rule earliest_min(1))
qed

lemma update_existing:
  assumes "stored store eml d = [r]"
  shows "\<exists>store' x. update_or_create store eml d t (find_user users eml) = Inr (store', False) \<and>
           length store' = length store \<and> stored store' eml d = [x] \<and>
           check_in_time x = Some t \<and> employee x = find_user users eml"
proof -
  let ?obj = "r\<lparr>check_in_time := Some t, status := Present, employee := find_user users eml\<rparr>"
  let ?store' = "map (\<lambda>x. if row_key x = (Some eml, d) then ?obj else x) store"
  have "r \<in> set (stored store eml d)"
    using assms by simp
  then have "employee_email r = Some eml" "date r = d"
    using stored_key by blast+
  then have key: "row_key ?obj = (Some eml, d)"
    by (simp add: row_key_def)
  have "update_or_create store eml d t (find_user users eml) = Inr (?store', False)"
    using uoc_update [OF assms keeps_email_find_user] .
  moreover have "stored ?store' eml d = [?obj]"
    using stored_replace_same [OF key] assms by simp
  ultimately show ?thesis by simp
qed

lemma fold_char_iff: "ascii_lower x = ascii_lower y \<longleftrightarrow> ascii_upper x = ascii_upper y"
proof -
  have inj: "a = b \<longleftrightarrow> of_char a = (of_char b :: nat)" for a b :: char
    by simp
  have bound: "(of_char a :: nat) < 256" for a :: char
    by simp
  show ?thesis
    using bound [of x] bound [of y]
    unfolding ascii_lower_def ascii_upper_def Let_def
    by (auto simp: inj [of _ y] inj [of x] inj [of "char_of _" "char_of _"] simp del: of_char_eq_iff)
qed

lemma iexact_iff: "iexact a b \<longleftrightarrow> same_ignoring_case a b"
  unfolding iexact_def same_ignoring_case_def map_equality_iff
  by (simp add: fold_char_iff)

lemma find_first_such: "first_such p xs (find p xs)"
proof (cases "find p xs")
  case None
  have "list_all (\<lambda>c. \<not> p c) xs"
    using None by (simp add: find_None_iff list_all_iff)
  then show ?thesis
    unfolding first_such_def None by simp
next
  case (Some c)
  then obtain i where i: "i < length xs" "p (xs ! i)" "c = xs ! i" "\<forall>j<i. \<not> p (xs ! j)"
    by (auto simp: find_Some_iff)
  then show ?thesis
    using Some by (auto simp: first_such_def list_ex_iff list_all_iff intro!: bexI [of _ i])
qed

lemma first_such_unique:
  assumes "first_such p xs r" and "first_such p xs r'"
  shows "r = r'"
proof -
  have none: "\<not> first_such p xs None" if "first_such p xs (Some c)" for c
    using that by (auto simp: first_such_def list_ex_iff list_all_iff)
  show ?thesis
  proof (cases r)
    case None
    then show ?thesis using assms none by (cases r') auto
  next
    case (Some c)
    show ?thesis
    proof (cases r')
      case None
      then show ?thesis using assms none Some by auto
    next
      case (Some c')
      from assms \<open>r = Some c\<close> obtain i where
        i: "i < length xs" "xs ! i = c" "p c" "\<forall>j<i. \<not> p (xs ! j)"
        by (auto simp: first_such_def list_ex_iff list_all_iff)
      from assms Some obtain k where
        k: "k < length xs" "xs ! k = c'" "p c'" "\<forall>j<k. \<not> p (xs ! j)"
        by (auto simp: first_such_def list_ex_iff list_all_iff)
      have "i = k"
        using i k by (metis linorder_neqE_nat)
      then show ?thesis using i k Some \<open>r = Some c\<close> by simp
    qed
  qed
qed

lemma linked_account_iff: "linked_account users eml a \<longleftrightarrow> a = find_user users eml"
proof -
  have "find_user users eml = find (\<lambda>u. same_ignoring_case (user_email u) eml) users"
    by (simp add: find_user_def iexact_iff)
  then show ?thesis
    unfolding linked_account_def using find_first_such first_such_unique by metis
qed

lemma upsert_existing:
  assumes "stored store (str_lower e) d = [r]"
  shows "\<exists>store' x. upsert users [(e, d, t)] store 0 0 = (Inr (0, 1), store') \<and>
           length store' = length store \<and> stored store' (str_lower e) d = [x] \<and>
           check_in_time x = Some t \<and> linked_account users (str_lower e) (employee x)"
proof -
  from update_existing [OF assms, of t users] obtain store' x where
    u: "update_or_create store (str_lower e) d t (find_user users (str_lower e))
          = Inr (store', False)"
    and rest: "length store' = length store" "stored store' (str_lower e) d = [x]"
      "check_in_time x = Some t" "employee x = find_user users (str_lower e)"
    by blast
  have "upsert users [(e, d, t)] store 0 0 = (Inr (0, 1), store')"
    using u by (simp add: Let_def)
  then show ?thesis
    using rest by (auto simp: linked_account_iff)
qed

lemma relink_examples:
  "upsert accounts [(''a@x.com'', (2024, 5, 1), (8, 30, 0, 0))] linked_store 0 0 =
     (Inr (0, 1),
      [\<lparr>employee = Some \<lparr>user_pk = 2, user_email = ''A@X.com''\<rparr>,
        employee_email = Some ''a@x.com'', date = (2024, 5, 1),
        check_in_time = Some (8, 30, 0, 0), status = Present\<rparr>])"
  "upsert [\<lparr>user_pk = 1, user_email = ''bob@y.com''\<rparr>]
      [(''a@x.com'', (2024, 5, 1), (8, 30, 0, 0))] linked_store 0 0 =
     (Inr (0, 1),
      [\<lparr>employee = None, employee_email = Some ''a@x.com'', date = (2024, 5, 1),
        check_in_time = Some (8, 30, 0, 0), status = Present\<rparr>])"
  "find_user [\<lparr>user_pk = 1, user_email = char_of (201 :: nat) # ''@x.com''\<rparr>]
      (char_of (233 :: nat) # ''@x.com'') = None"
  "find_user accounts ''a@x.com'' = Some \<lparr>user_pk = 2, user_email = ''A@X.com''\<rparr>"
  "uniq_attendance_email_date linked_store"
  by code_simp+

text \<open>
  C10. When the key of a row of the loop has a stored row, the loop reports an update,
  adds no row, and leaves under the key one row whose check-in time is the new time,
  whatever the stored time was, and whose account is resolved anew: the first account that
  matches the email up to case, or none when no account matches, whatever account the
  stored row had. After an upload that reaches the loop, on a table meeting the unique
  constraint, every aggregated key holds exactly one row, with the least time of the
  upload's rows for that key and the account resolved anew: the stored check-in is the
  minimum of the latest upload. On a table that holds a@x.com / 2024-05-01 at 08:00
  linked to the account bob@y.com, the row (a@x.com, 2024-05-01, 08:30) leaves 08:30,
  linked to the account A@X.com when the accounts are bob@y.com, A@X.com, a@x.com, and
  linked to no account when bob@y.com is the only one. An account whose email differs
  from the row's by the case of a letter outside a-z does not match.
\<close>

theorem C10_upsert_replaces:
  assumes uniq: "uniq_attendance_email_date store"
    and norm: "normalize to_datetime df = Inr (used, ps)"
    and clash: "\<not> label_clash (normalize_columns (columns df))"
  shows "(\<forall>e d t r. stored store (str_lower e) d = [r] \<longrightarrow>
            (\<exists>store' x. upsert users [(e, d, t)] store 0 0 = (Inr (0, 1), store') \<and>
               length store' = length store \<and> stored store' (str_lower e) d = [x] \<and>
               check_in_time x = Some t \<and>
               linked_account users (str_lower e) (employee x))) \<and>
         (\<exists>res store'. upload_attendance to_datetime users store df = (Inr res, store') \<and>
            (\<forall>g \<in> set (groups to_datetime df).
               \<exists>x. stored store' (fst g) (fst (snd g)) = [x] \<and>
                   check_in_time x = Some (snd (snd g)) \<and>
                   linked_account users (fst g) (employee x) \<and>
                   snd (snd g) = Min {t. (fst g, fst (snd g), t) \<in> set (df_clean ps)})) \<and>
         upsert accounts [(''a@x.com'', (2024, 5, 1), (8, 30, 0, 0))] linked_store 0 0 =
           (Inr (0, 1),
            [\<lparr>employee = Some \<lparr>user_pk = 2, user_email = ''A@X.com''\<rparr>,
              employee_email = Some ''a@x.com'', date = (2024, 5, 1),
              check_in_time = Some (8, 30, 0, 0), status = Present\<rparr>]) \<and>
         upsert [\<lparr>user_pk = 1, user_email = ''bob@y.com''\<rparr>]
            [(''a@x.com'', (2024, 5, 1), (8, 30, 0, 0))] linked_store 0 0 =
           (Inr (0, 1),
            [\<lparr>employee = None, employee_email = Some ''a@x.com'', date = (2024, 5, 1),
              check_in_time = Some (8, 30, 0, 0), status = Present\<rparr>]) \<and>
         find_user [\<lparr>user_pk = 1, user_email = char_of (201 :: nat) # ''@x.com''\<rparr>]
            (char_of (233 :: nat) # ''@x.com'') = None"
proof -
  from upload_run [OF norm clash uniq, of users] obtain res store' where
    run: "upload_attendance to_datetime users store df = (Inr res, store')"
    and post: "upsert_post users (groups to_datetime df) store store'"
    by blast
  have "\<exists>x. stored store' (fst g) (fst (snd g)) = [x] \<and>
             check_in_time x = Some (snd (snd g)) \<and>
             linked_account users (fst g) (employee x) \<and>
             snd (snd g) = Min {t. (fst g, fst (snd g), t) \<in> set (df_clean ps)}"
    if g: "g \<in> set (groups to_datetime df)" for g
  proof -
    have low: "str_lower (fst g) = fst g"
      using g by (rule groups_lower)
    from upsert_post_written [OF post g] obtain x where
      "stored store' (str_lower (fst g)) (fst (snd g)) = [x]" and "written users g x"
      by blast
    then show ?thesis
      using low groups_min [OF norm g] by (auto simp: written_def linked_account_iff)
  qed
  then have all: "\<exists>res store'. upload_attendance to_datetime users store df = (Inr res, store') \<and>
            (\<forall>g \<in> set (groups to_datetime df).
               \<exists>x. stored store' (fst g) (fst (snd g)) = [x] \<and>
                   check_in_time x = Some (snd (snd g)) \<and>
                   linked_account users (fst g) (employee x) \<and>
                   snd (snd g) = Min {t. (fst g, fst (snd g), t) \<in> set (df_clean ps)})"
    using run by blast
  have one: "\<forall>e d t r. stored store (str_lower e) d = [r] \<longrightarrow>
            (\<exists>store' x. upsert users [(e, d, t)] store 0 0 = (Inr (0, 1), store') \<and>
               length store' = length store \<and> stored store' (str_lower e) d = [x] \<and>
               check_in_time x = Some t \<and>
               linked_account users (str_lower e) (employee x))"
    using upsert_existing by blast
  show ?thesis
    using one all relink_examples(1,2,3) by (intro conjI)
qed

theorem C10_upsert_replaces_witness:
  "map check_in_time linked_store = [Some (8, 0, 0, 0)] \<and>
   map employee linked_store = [Some \<lparr>user_pk = 1, user_email = ''bob@y.com''\<rparr>] \<and>
   (\<exists>res store' x.
      upload_attendance spec_to_datetime accounts linked_store scenario = (Inr res, store') \<and>
      stored store' ''a@x.com'' (2024, 5, 1) = [x] \<and> check_in_time x = Some (8, 30, 0, 0) \<and>
      employee x = Some \<lparr>user_pk = 2, user_email = ''A@X.com''\<rparr>)"
proof -
  have old: "map check_in_time linked_store = [Some (8, 0, 0, 0)]"
    "map employee linked_store = [Some \<lparr>user_pk = 1, user_email = ''bob@y.com''\<rparr>]"
    by (simp_all add: linked_store_def)
  from C10_upsert_replaces [OF relink_examples(5) scenario_normalize scenario_no_clash, of accounts]
  obtain res store' where
    run: "upload_attendance spec_to_datetime accounts linked_store scenario = (Inr res, store')"
    and all: "\<forall>g \<in> set (groups spec_to_datetime scenario).
               \<exists>x. stored store' (fst g) (fst (snd g)) = [x] \<and>
                   check_in_time x = Some (snd (snd g)) \<and>
                   linked_account accounts (fst g) (employee x) \<and>
                   snd (snd g) = Min {t. (fst g, fst (snd g), t) \<in> set (df_clean
                     [(''a@x.com'', Some (2024, 5, 1), Some (9, 0, 0, 0)),
                      (''a@x.com'', Some (2024, 5, 1), Some (8, 30, 0, 0)),
                      (''b@y.com'', Some (2024, 5, 1), None)])}"
    by blast
  have "(''a@x.com'', (2024, 5, 1), (8, 30, 0, 0)) \<in> set (groups spec_to_datetime scenario)"
    unfolding scenario_groups by simp
  from all [rule_format, OF this] obtain x where
    "stored store' ''a@x.com'' (2024, 5, 1) = [x]" "check_in_time x = Some (8, 30, 0, 0)"
    "employee x = Some \<lparr>user_pk = 2, user_email = ''A@X.com''\<rparr>"
    by (auto simp: linked_account_iff relink_examples(4))
  then show ?thesis
    using run old by blast
qed

end
